theory Spec2Isabelle
  imports Main "HOL-Library.AList"
begin

section \<open>JavaScript values\<close>

text \<open>
  The values \<open>ConfigParser\<close> receives: what \<open>JSON.parse\<close> produces (null, booleans,
  numbers, strings, arrays, objects) together with \<open>undefined\<close>, which a property read
  of a missing key yields and which \<open>parse(undefined)\<close> receives. An object is its list
  of own properties in insertion order; a read takes the first entry for a key. A
  JavaScript array is an object too: besides its elements it may carry named
  properties (\<open>migrate\<close> stores \<open>categories\<close> on whatever it cloned), so \<open>JArr\<close> has both.
  Numbers are integers here: the code only ever tests a number for truthiness. A
  string is a list of 8-bit characters: the code only ever tests a string for being
  empty. The private methods (\<open>_parseCategories\<close>, \<open>_validatePage\<close>, \<open>_migrateCategory\<close>,
  ...) stand below without the leading underscore.
\<close>

datatype json =
    JUndef
  | JNull
  | JBool bool
  | JNum int
  | JStr string
  | JArr "json list" "(string \<times> json) list"
  | JObj "(string \<times> json) list"

text \<open>\<open>!v\<close> is \<open>\<not> truthy v\<close>.\<close>

fun truthy :: "json \<Rightarrow> bool" where
  "truthy JUndef = False"
| "truthy JNull = False"
| "truthy (JBool b) = b"
| "truthy (JNum n) = (n \<noteq> 0)"
| "truthy (JStr s) = (s \<noteq> [])"
| "truthy (JArr xs ps) = True"
| "truthy (JObj kvs) = True"

text \<open>\<open>a || b\<close>\<close>

definition js_or :: "json \<Rightarrow> json \<Rightarrow> json" where
  "js_or a b = (if truthy a then a else b)"

text \<open>\<open>Array.isArray(v)\<close> and \<open>typeof v === 'string'\<close>\<close>

fun isArray :: "json \<Rightarrow> bool" where
  "isArray (JArr xs ps) = True"
| "isArray _ = False"

fun isString :: "json \<Rightarrow> bool" where
  "isString (JStr s) = True"
| "isString _ = False"

text \<open>A string that is not empty.\<close>

definition nonempty_string :: "json \<Rightarrow> bool" where
  "nonempty_string v = (case v of JStr s \<Rightarrow> s \<noteq> [] | _ \<Rightarrow> False)"

text \<open>The elements of an array, in order; a value that is not an array has none.\<close>

fun elems :: "json \<Rightarrow> json list" where
  "elems (JArr xs ps) = xs"
| "elems _ = []"

text \<open>
  \<open>v.k\<close> for the property names the parser reads (\<open>name\<close>, \<open>url\<close>, \<open>pages\<close>,
  \<open>categories\<close>, \<open>collapsed\<close>, \<open>visibleToPlayers\<close>, \<open>visible\<close>, \<open>blockTypes\<close>, \<open>icon\<close>,
  \<open>linkedTokenId\<close>): none of them is an index, \<open>length\<close> or a prototype property, so a
  primitive has none of them and an array has one only as a named property. Every read
  in the parser is guarded by a truthiness test of the receiver, so the read of a
  property of \<open>null\<close> or \<open>undefined\<close>, which would throw, never happens.
\<close>

fun get :: "json \<Rightarrow> string \<Rightarrow> json" where
  "get (JObj kvs) k = (case map_of kvs k of Some v \<Rightarrow> v | None \<Rightarrow> JUndef)"
| "get (JArr xs ps) k = (case map_of ps k of Some v \<Rightarrow> v | None \<Rightarrow> JUndef)"
| "get _ k = JUndef"

text \<open>The decimal rendering of an array index inside a template string.\<close>

fun show_nat :: "nat \<Rightarrow> string" where
  "show_nat n =
     (if n < 10 then [''0123456789'' ! n]
      else show_nat (n div 10) @ [''0123456789'' ! (n mod 10)])"

declare show_nat.simps [simp del]



text \<open>A value read from another, or an element of it, is smaller: the walks below terminate.\<close>

lemma size_map_of: "map_of kvs k = Some (w::json) \<Longrightarrow> size w < Suc (size_list (size_prod f size) kvs)"
  by (induction kvs) (auto split: if_splits)

lemma get_size: "get v k \<noteq> JUndef \<Longrightarrow> size (get v k) < size v"
  by (cases v) (auto split: option.splits dest: size_map_of [where f = "\<lambda>_. 0"])

lemma elems_size: "x \<in> set (elems v) \<Longrightarrow> size x < size v"
  by (cases v) (auto simp: less_Suc_eq_le trans_le_add1 size_list_estimation')

lemma elems_get_size: "x \<in> set (elems (get v k)) \<Longrightarrow> size x < size v"
proof -
  assume x: "x \<in> set (elems (get v k))"
  then have "get v k \<noteq> JUndef" by auto
  then have "size (get v k) < size v" by (rule get_size)
  with elems_size [OF x] show ?thesis by simp
qed

section \<open>ConfigParser.validate\<close>

record validation =
  valid :: bool
  errors :: "string list"

text \<open>
  The messages are the source's, with the Latin-1 letters written as their code units
  (0xE1, 0xED and 0xF3 are a, i and o with acute accent).
\<close>

definition msg_config_empty :: string where
  "msg_config_empty = ''Configuraci'' @ [CHR 0xF3] @ ''n vac'' @ [CHR 0xED] @ ''a''"

definition msg_category_empty :: string where
  "msg_category_empty = '': categor'' @ [CHR 0xED] @ ''a vac'' @ [CHR 0xED] @ ''a''"

definition msg_page_empty :: string where
  "msg_page_empty = '': p'' @ [CHR 0xE1] @ ''gina vac'' @ [CHR 0xED] @ ''a''"

text \<open>\<open>`${path}.pages[${index}]`\<close> and its siblings\<close>

definition indexed :: "string \<Rightarrow> nat \<Rightarrow> string" where
  "indexed path index = path @ ''['' @ show_nat index @ '']''"

definition validatePage :: "json \<Rightarrow> string \<Rightarrow> string list" where
  "validatePage page path =
     (if \<not> truthy page then [path @ msg_page_empty]
      else
        (if \<not> truthy (get page ''name'') \<or> \<not> isString (get page ''name'')
         then [path @ '': falta nombre o no es string''] else []) @
        (if \<not> truthy (get page ''url'') \<or> \<not> isString (get page ''url'')
         then [path @ '': falta URL o no es string''] else []) @
        (if truthy (get page ''blockTypes'') \<and> \<not> isArray (get page ''blockTypes'')
         then [path @ ''.blockTypes: debe ser un array''] else []))"

text \<open>
  \<open>xs.forEach((x, index) => errors.push(...f(x, index)))\<close>: the results for the
  elements, in order, appended.
\<close>

definition forEach_errors :: "(json \<Rightarrow> nat \<Rightarrow> string list) \<Rightarrow> json list \<Rightarrow> string list" where
  "forEach_errors f xs = concat (map (\<lambda>(index, x). f x index) (enumerate 0 xs))"

lemma forEach_errors_cong [fundef_cong]:
  "xs = ys \<Longrightarrow> (\<And>x i. x \<in> set ys \<Longrightarrow> f x i = g x i) \<Longrightarrow> forEach_errors f xs = forEach_errors g ys"
  unfolding forEach_errors_def
  by (auto simp: in_set_enumerate_eq intro!: arg_cong[where f=concat])

function validateCategory :: "json \<Rightarrow> string \<Rightarrow> string list" where
  "validateCategory category path =
     (if \<not> truthy category then [path @ msg_category_empty]
      else
        (if \<not> truthy (get category ''name'') \<or> \<not> isString (get category ''name'')
         then [path @ '': falta nombre o no es string''] else []) @
        (if truthy (get category ''pages'') \<and> \<not> isArray (get category ''pages'')
         then [path @ ''.pages: debe ser un array'']
         else if truthy (get category ''pages'')
         then forEach_errors (\<lambda>page index. validatePage page (indexed (path @ ''.pages'') index))
                (elems (get category ''pages''))
         else []) @
        (if truthy (get category ''categories'') \<and> \<not> isArray (get category ''categories'')
         then [path @ ''.categories: debe ser un array'']
         else if truthy (get category ''categories'')
         then forEach_errors
                (\<lambda>subcat index. validateCategory subcat (indexed (path @ ''.categories'') index))
                (elems (get category ''categories''))
         else []))"
  by pat_completeness auto
termination
  by (relation "measure (\<lambda>(category, path). size category)") (auto simp: elems_get_size)

declare validateCategory.simps [simp del]

definition msg_categories_missing :: string where
  "msg_categories_missing = ''Falta el campo '' @ [CHR 0x22] @ ''categories'' @ [CHR 0x22]"

definition msg_categories_not_array :: string where
  "msg_categories_not_array = [CHR 0x22] @ ''categories'' @ [CHR 0x22] @ '' debe ser un array''"

definition validate :: "json \<Rightarrow> validation" where
  "validate json =
     (if \<not> truthy json then \<lparr>valid = False, errors = [msg_config_empty]\<rparr>
      else if \<not> truthy (get json ''categories'')
      then \<lparr>valid = False, errors = [msg_categories_missing]\<rparr>
      else if \<not> isArray (get json ''categories'')
      then \<lparr>valid = False, errors = [msg_categories_not_array]\<rparr>
      else
        let errors = forEach_errors (\<lambda>cat index. validateCategory cat (indexed ''categories'' index))
                       (elems (get json ''categories''))
        in \<lparr>valid = (length errors = 0), errors = errors\<rparr>)"

subsection \<open>The nodes validate visits, and the rules it checks at each\<close>

text \<open>
  \<open>category_node json path c\<close>: \<open>c\<close> is the entry of a \<open>categories\<close> array that is
  reached from the top-level \<open>categories\<close> array of \<open>json\<close> through \<open>categories\<close> arrays,
  and \<open>path\<close> is its position written as the messages write it. \<open>page_node\<close> is the
  same for an entry of the \<open>pages\<close> array of such a category.
\<close>

inductive category_node :: "json \<Rightarrow> string \<Rightarrow> json \<Rightarrow> bool" for json :: json where
  top_category:
    "truthy json \<Longrightarrow> isArray (get json ''categories'') \<Longrightarrow>
     i < length (elems (get json ''categories'')) \<Longrightarrow>
     category_node json (indexed ''categories'' i) (elems (get json ''categories'') ! i)"
| sub_category:
    "category_node json path c \<Longrightarrow> truthy c \<Longrightarrow> isArray (get c ''categories'') \<Longrightarrow>
     i < length (elems (get c ''categories'')) \<Longrightarrow>
     category_node json (indexed (path @ ''.categories'') i) (elems (get c ''categories'') ! i)"

inductive page_node :: "json \<Rightarrow> string \<Rightarrow> json \<Rightarrow> bool" for json :: json where
  category_page:
    "category_node json path c \<Longrightarrow> truthy c \<Longrightarrow> isArray (get c ''pages'') \<Longrightarrow>
     i < length (elems (get c ''pages'')) \<Longrightarrow>
     page_node json (indexed (path @ ''.pages'') i) (elems (get c ''pages'') ! i)"

text \<open>
  The rules of the specification, one by one, each with the message of its violation:
  a category is not empty, it has a name that is a non-empty string, and its \<open>pages\<close>
  and \<open>categories\<close>, if present, are arrays; a page is not empty, has a name and a url
  that are non-empty strings, and its \<open>blockTypes\<close>, if present, is an array. What "if
  present" means is the parameter \<open>there\<close>: for the specification a field is present
  when the object has it, whatever its value (\<open>present\<close>); the code asks for a truthy
  value (\<open>truthy\<close>). The rule on a name or a url is taken in its wider sense, the one of
  the code: the empty string breaks it as a missing field does.
\<close>

definition present :: "json \<Rightarrow> bool" where
  "present v = (v \<noteq> JUndef)"

definition rule_nonempty :: "json \<Rightarrow> string \<Rightarrow> string list" where
  "rule_nonempty node message = (if truthy node then [] else [message])"

definition rule_string :: "json \<Rightarrow> string \<Rightarrow> string list" where
  "rule_string v message = (if nonempty_string v then [] else [message])"

definition rule_array :: "(json \<Rightarrow> bool) \<Rightarrow> json \<Rightarrow> string \<Rightarrow> string list" where
  "rule_array there v message = (if there v \<and> \<not> isArray v then [message] else [])"

text \<open>
  The rules a category breaks, its entries left aside, and the rules a page breaks. An
  empty (null) node breaks the first rule only: there is nothing else to look at.
\<close>

definition category_violations :: "(json \<Rightarrow> bool) \<Rightarrow> json \<Rightarrow> string \<Rightarrow> string list" where
  "category_violations there category path =
     rule_nonempty category (path @ msg_category_empty) @
     (if truthy category
      then rule_string (get category ''name'') (path @ '': falta nombre o no es string'') @
           rule_array there (get category ''pages'') (path @ ''.pages: debe ser un array'') @
           rule_array there (get category ''categories'') (path @ ''.categories: debe ser un array'')
      else [])"

definition page_violations :: "(json \<Rightarrow> bool) \<Rightarrow> json \<Rightarrow> string \<Rightarrow> string list" where
  "page_violations there page path =
     rule_nonempty page (path @ msg_page_empty) @
     (if truthy page
      then rule_string (get page ''name'') (path @ '': falta nombre o no es string'') @
           rule_string (get page ''url'') (path @ '': falta URL o no es string'') @
           rule_array there (get page ''blockTypes'') (path @ ''.blockTypes: debe ser un array'')
      else [])"

section \<open>ConfigParser.migrate\<close>

text \<open>
  What the code can throw: a \<open>TypeError\<close> (calling \<open>.map\<close> on a value that has no such
  method, or, the module being strict-mode code, assigning a property of a primitive)
  and the \<open>SyntaxError\<close> of \<open>JSON.parse\<close>. A function that can throw returns
  \<open>error + 'a\<close>; \<open>migrate\<close> has no \<open>try\<close>, so what is thrown inside reaches its caller.
\<close>

datatype error = TypeError | SyntaxError

text \<open>\<open>xs.map(f)\<close> on an array, \<open>f\<close> possibly throwing: the first throw ends the walk.\<close>

fun mapM :: "('a \<Rightarrow> error + 'b) \<Rightarrow> 'a list \<Rightarrow> error + 'b list" where
  "mapM f [] = Inr []"
| "mapM f (x # xs) =
     (case f x of
        Inl e \<Rightarrow> Inl e
      | Inr y \<Rightarrow> (case mapM f xs of Inl e \<Rightarrow> Inl e | Inr ys \<Rightarrow> Inr (y # ys)))"

lemma mapM_cong [fundef_cong]:
  "xs = ys \<Longrightarrow> (\<And>x. x \<in> set ys \<Longrightarrow> f x = g x) \<Longrightarrow> mapM f xs = mapM g ys"
  by (induction ys arbitrary: xs) (auto split: sum.splits)

text \<open>
  \<open>v.map(f)\<close> on any value: only an array has the method. On a string, a number, a
  boolean or an object \<open>v.map\<close> is \<open>undefined\<close> (or, for an object with a \<open>map\<close> entry,
  a value that is not a function), and the call throws.
\<close>

definition js_map :: "(json \<Rightarrow> error + json) \<Rightarrow> json \<Rightarrow> error + json list" where
  "js_map f v = (if isArray v then mapM f (elems v) else Inl TypeError)"

lemma js_map_cong [fundef_cong]:
  "v = w \<Longrightarrow> (\<And>x. x \<in> set (elems w) \<Longrightarrow> f x = g x) \<Longrightarrow> js_map f v = js_map g w"
  unfolding js_map_def by (auto cong: mapM_cong)

text \<open>
  \<open>v.k = w\<close>: an existing property keeps its place, a new one goes last; on a
  primitive the assignment throws in strict mode.
\<close>

fun set_prop :: "json \<Rightarrow> string \<Rightarrow> json \<Rightarrow> error + json" where
  "set_prop (JObj kvs) k w = Inr (JObj (AList.update k w kvs))"
| "set_prop (JArr xs ps) k w = Inr (JArr xs (AList.update k w ps))"
| "set_prop _ k w = Inl TypeError"

text \<open>
  \<open>JSON.parse(JSON.stringify(v))\<close> below the top level: an array keeps its elements
  only, with \<open>undefined\<close> written as \<open>null\<close>; an object keeps its properties (one per
  key) whose value is not \<open>undefined\<close>.
\<close>

lemma set_clearjunk: "set (AList.clearjunk kvs) \<subseteq> set kvs"
  by (induction kvs rule: AList.clearjunk.induct) (auto simp: AList.delete_eq)

lemma size_clearjunk_entry:
  "(k, v) \<in> set (AList.clearjunk kvs) \<Longrightarrow> size (v::json) < size (JObj kvs)"
proof -
  assume "(k, v) \<in> set (AList.clearjunk kvs)"
  then have "(k, v) \<in> set kvs" using set_clearjunk by blast
  then have "size_prod (\<lambda>_. 0) size (k, v) \<le> size_list (size_prod (\<lambda>_. 0) size) kvs"
    by (simp add: size_list_estimation')
  then show ?thesis by simp
qed

function json_clone :: "json \<Rightarrow> json" where
  "json_clone (JArr xs ps) = JArr (map (\<lambda>x. if x = JUndef then JNull else json_clone x) xs) []"
| "json_clone (JObj kvs) =
     JObj (map (\<lambda>(k, v). (k, json_clone v)) (filter (\<lambda>(k, v). v \<noteq> JUndef) (AList.clearjunk kvs)))"
| "json_clone JUndef = JUndef"
| "json_clone JNull = JNull"
| "json_clone (JBool b) = JBool b"
| "json_clone (JNum n) = JNum n"
| "json_clone (JStr s) = JStr s"
  by pat_completeness auto
termination
proof (relation "measure size", goal_cases)
  case 1
  show ?case by simp
next
  case (2 xs ps x)
  then show ?case using elems_size [of x "JArr xs ps"] by simp
next
  case (3 kvs kv k v)
  then show ?case using size_clearjunk_entry [of k v kvs] by simp
qed

text \<open>
  At the top level \<open>JSON.stringify(undefined)\<close> is \<open>undefined\<close>, which \<open>JSON.parse\<close>
  rejects.
\<close>

definition json_roundtrip :: "json \<Rightarrow> error + json" where
  "json_roundtrip v = (if v = JUndef then Inl SyntaxError else Inr (json_clone v))"

text \<open>\<open>...(page.k && { k: page.k })\<close>: the property when it is truthy, nothing otherwise.\<close>

definition spread_if :: "json \<Rightarrow> string \<Rightarrow> (string \<times> json) list" where
  "spread_if page k = (if truthy (get page k) then [(k, get page k)] else [])"

definition migratePage :: "json \<Rightarrow> json" where
  "migratePage page =
     (if \<not> truthy page \<or> \<not> truthy (get page ''url'') then JNull
      else JObj
        ([(''name'', js_or (get page ''name'') (JStr ''Unnamed Page'')),
          (''url'', get page ''url''),
          (''visibleToPlayers'',
             js_or (js_or (get page ''visibleToPlayers'') (get page ''visible'')) (JBool False))]
         @ spread_if page ''blockTypes''
         @ spread_if page ''icon''
         @ spread_if page ''linkedTokenId''))"

function migrateCategory :: "json \<Rightarrow> error + json" where
  "migrateCategory category =
     (if \<not> truthy category then Inr JNull
      else
        (case js_map (\<lambda>p. Inr (migratePage p)) (js_or (get category ''pages'') (JArr [] [])) of
          Inl e \<Rightarrow> Inl e
        | Inr pages \<Rightarrow>
           (case js_map migrateCategory (js_or (get category ''categories'') (JArr [] [])) of
              Inl e \<Rightarrow> Inl e
            | Inr categories \<Rightarrow>
                Inr (JObj
                  ([(''name'', js_or (get category ''name'') (JStr ''Unnamed Category'')),
                    (''pages'', JArr (filter truthy pages) []),
                    (''categories'', JArr (filter truthy categories) [])]
                   @ (if get category ''collapsed'' \<noteq> JUndef
                      then [(''collapsed'', get category ''collapsed'')] else []))))))"
  by pat_completeness auto
termination
  by (relation "measure size") (auto simp: js_or_def elems_get_size split: if_splits)

declare migrateCategory.simps [simp del]

definition migrate :: "json \<Rightarrow> error + json" where
  "migrate json =
     (if \<not> truthy json then Inr (JObj [(''categories'', JArr [] [])])
      else
        (case json_roundtrip json of
           Inl e \<Rightarrow> Inl e
         | Inr cloned \<Rightarrow>
            (case (if \<not> truthy (get cloned ''categories'')
                   then set_prop cloned ''categories'' (JArr [] [])
                   else Inr cloned) of
               Inl e \<Rightarrow> Inl e
             | Inr migrated \<Rightarrow>
                (case js_map migrateCategory (get migrated ''categories'') of
                   Inl e \<Rightarrow> Inl e
                 | Inr categories \<Rightarrow> set_prop migrated ''categories'' (JArr categories [])))))"

subsection \<open>JSON values, and configurations whose fields have the types validate asks for\<close>

text \<open>
  A value that JSON text can denote and \<open>JSON.parse\<close> can return: no \<open>undefined\<close>
  anywhere, arrays without named properties, one entry per key in an object.
\<close>

fun is_json :: "json \<Rightarrow> bool" where
  "is_json JUndef = False"
| "is_json (JArr xs ps) = (ps = [] \<and> list_all is_json xs)"
| "is_json (JObj kvs) = (distinct (map fst kvs) \<and> list_all is_json (map snd kvs))"
| "is_json _ = True"

text \<open>
  \<open>migrate\<close> fills in what is missing and leaves what is there as it is. The fields of a
  page that \<open>migrate\<close> keeps have the types \<open>validate\<close> asks for when: a truthy \<open>name\<close>
  is a string, the \<open>url\<close> is a string, and a truthy \<open>blockTypes\<close> is an array. For a
  category: a truthy \<open>name\<close> is a string, and so on through its pages and categories.
\<close>

definition page_fields_typed :: "json \<Rightarrow> bool" where
  "page_fields_typed page =
     (\<not> truthy page \<or> \<not> truthy (get page ''url'') \<or>
      ((\<not> truthy (get page ''name'') \<or> isString (get page ''name'')) \<and>
       isString (get page ''url'') \<and>
       (\<not> truthy (get page ''blockTypes'') \<or> isArray (get page ''blockTypes''))))"

function category_fields_typed :: "json \<Rightarrow> bool" where
  "category_fields_typed category =
     (\<not> truthy category \<or>
      ((\<not> truthy (get category ''name'') \<or> isString (get category ''name'')) \<and>
       list_all page_fields_typed (elems (get category ''pages'')) \<and>
       list_all category_fields_typed (elems (get category ''categories''))))"
  by pat_completeness auto
termination
  by (relation "measure size") (auto simp: elems_get_size)

declare category_fields_typed.simps [simp del]

definition config_fields_typed :: "json \<Rightarrow> bool" where
  "config_fields_typed json =
     list_all (\<lambda>category. truthy category \<and> category_fields_typed category)
       (elems (get json ''categories''))"

section \<open>ConfigParser.parse\<close>

subsection \<open>The models parse builds\<close>

text \<open>
  The \<open>Page\<close> model (the second file of src/js/main.js): the constructor stores \<open>name\<close>
  and \<open>url\<close> as given and each option with its default
  (\<open>options.visibleToPlayers || false\<close>, \<open>options.blockTypes || null\<close>, ...). The parser
  does not check the type of a field, so a field holds any value.
\<close>

datatype page = Page
  (page_name: json) (page_url: json) (page_visibleToPlayers: json)
  (page_blockTypes: json) (page_icon: json) (page_linkedTokenId: json)

definition new_Page :: "json \<Rightarrow> json \<Rightarrow> json \<Rightarrow> page" where
  "new_Page name url options =
     Page name url
       (js_or (get options ''visibleToPlayers'') (JBool False))
       (js_or (get options ''blockTypes'') JNull)
       (js_or (get options ''icon'') JNull)
       (js_or (get options ''linkedTokenId'') JNull)"

text \<open>
  Modelled from the spec: the \<open>Config\<close> class (js/models/Config.js), which is not among
  the sources. A Config holds the ordered sequence of its categories. The type of a
  category is left open here.
\<close>

datatype 'c config = Config (config_categories: "'c list")

text \<open>
  Modelled from the spec: \<open>new Config()\<close>, the constructor of the missing \<open>Config\<close> class
  without arguments. A default-constructed Config has an empty category sequence.
\<close>

definition new_Config :: "'c config" where
  "new_Config = Config []"

text \<open>
  Modelled from the spec: the \<open>Category\<close> class (js/models/Category.js), which is not
  among the sources. A Category has a name, the ordered sequence of its pages, the
  ordered sequence of its child categories, and \<open>collapsed\<close>.
\<close>

datatype category = Category
  (category_name: json) (category_pages: "page list")
  (category_categories: "category list") (category_collapsed: json)

text \<open>
  The parser takes the constructor of the missing \<open>Category\<close> class as a parameter \<open>new\<close>,
  applied to the name and to the three options, which may throw: what \<open>parse\<close> does
  with an exception raised during the descent does not depend on which constructor
  it is.
\<close>

type_synonym 'c category_constructor = "json \<Rightarrow> page list \<Rightarrow> 'c list \<Rightarrow> json \<Rightarrow> error + 'c"

text \<open>
  Modelled from the spec: \<open>new Category(name, {pages, categories, collapsed})\<close>, the
  constructor of the missing \<open>Category\<close> class. It stores its arguments and does not
  throw.
\<close>

definition new_Category :: "category category_constructor" where
  "new_Category name pages categories collapsed = Inr (Category name pages categories collapsed)"

subsection \<open>The parser\<close>

definition parsePage :: "json \<Rightarrow> page" where
  "parsePage pageJson =
     new_Page (get pageJson ''name'') (get pageJson ''url'')
       (JObj [(''visibleToPlayers'', js_or (get pageJson ''visibleToPlayers'') (JBool False)),
              (''blockTypes'', js_or (get pageJson ''blockTypes'') JNull),
              (''icon'', js_or (get pageJson ''icon'') JNull),
              (''linkedTokenId'', js_or (get pageJson ''linkedTokenId'') JNull)])"

definition parsePages :: "json \<Rightarrow> page list" where
  "parsePages pagesJson =
     (if \<not> isArray pagesJson then []
      else map parsePage
             (filter (\<lambda>page. truthy page \<and> truthy (get page ''name'') \<and> truthy (get page ''url''))
                (elems pagesJson)))"

lemma size_list_member: "x \<in> set xs \<Longrightarrow> Suc (f x) \<le> size_list f xs"
  by (induction xs) auto

lemma elems_size2: "x \<in> set (elems v) \<Longrightarrow> size x + 2 \<le> size v"
  by (cases v) (auto dest: size_list_member [where f = size])

function parseCategories :: "'c category_constructor \<Rightarrow> json \<Rightarrow> error + 'c list"
  and parseCategory :: "'c category_constructor \<Rightarrow> json \<Rightarrow> error + 'c" where
  "parseCategories new categoriesJson =
     (if \<not> isArray categoriesJson then Inr []
      else mapM (parseCategory new)
             (filter (\<lambda>cat. truthy cat \<and> truthy (get cat ''name'')) (elems categoriesJson)))"
| "parseCategory new categoryJson =
     (let pages = parsePages (js_or (get categoryJson ''pages'') (JArr [] []))
      in case parseCategories new (js_or (get categoryJson ''categories'') (JArr [] [])) of
           Inl e \<Rightarrow> Inl e
         | Inr subcategories \<Rightarrow>
             new (get categoryJson ''name'') pages subcategories
               (js_or (get categoryJson ''collapsed'') (JBool False)))"
  by pat_completeness auto
termination
proof (relation "measure (\<lambda>a. case a of Inl (new, j) \<Rightarrow> 2 * size j
                                        | Inr (new, c) \<Rightarrow> 2 * size c + 3)", goal_cases)
  case 1
  show ?case by simp
next
  case (2 new categoriesJson x)
  then have "size x + 2 \<le> size categoriesJson"
    by (intro elems_size2) simp
  then show ?case by simp
next
  case (3 new categoryJson pages)
  show ?case
  proof (cases "truthy (get categoryJson ''categories'')")
    case True
    then have "get categoryJson ''categories'' \<noteq> JUndef" by auto
    then have "size (get categoryJson ''categories'') < size categoryJson"
      by (rule get_size)
    with True show ?thesis by (simp add: js_or_def)
  next
    case False
    then show ?thesis by (simp add: js_or_def)
  qed
qed

declare parseCategories.simps [simp del] parseCategory.simps [simp del]

text \<open>
  \<open>parse\<close>: an empty Config for a falsy input; otherwise the descent inside \<open>try\<close>, and
  an empty Config again when the descent throws. The calls of the logger are left out.
\<close>

definition parse :: "'c category_constructor \<Rightarrow> json \<Rightarrow> 'c config" where
  "parse new json =
     (if \<not> truthy json then new_Config
      else
        (case parseCategories new (js_or (get json ''categories'') (JArr [] [])) of
           Inr categories \<Rightarrow> Config categories
         | Inl e \<Rightarrow> new_Config))"

subsection \<open>What the specification says parse keeps\<close>

text \<open>
  In the words of the specification: a category is dropped when it is null or lacks a
  non-empty name, a page when it is null or lacks a non-empty name or url.
\<close>

definition category_dropped :: "json \<Rightarrow> bool" where
  "category_dropped c = (c = JNull \<or> \<not> nonempty_string (get c ''name''))"

definition page_dropped :: "json \<Rightarrow> bool" where
  "page_dropped p =
     (p = JNull \<or> \<not> nonempty_string (get p ''name'') \<or> \<not> nonempty_string (get p ''url''))"

text \<open>
  JSON that matches the schema of the persisted configuration, entries without a name
  or url and null entries included: wherever the walk looks for a \<open>name\<close> or a \<open>url\<close>
  it finds a string or nothing.
\<close>

definition string_or_absent :: "json \<Rightarrow> bool" where
  "string_or_absent v = (isString v \<or> v = JUndef \<or> v = JNull)"

definition page_matches_schema :: "json \<Rightarrow> bool" where
  "page_matches_schema p =
     (p = JNull \<or> (string_or_absent (get p ''name'') \<and> string_or_absent (get p ''url'')))"

function category_matches_schema :: "json \<Rightarrow> bool" where
  "category_matches_schema c =
     (c = JNull \<or>
      (string_or_absent (get c ''name'') \<and>
       list_all page_matches_schema (elems (get c ''pages'')) \<and>
       list_all category_matches_schema (elems (get c ''categories''))))"
  by pat_completeness auto
termination
  by (relation "measure size") (auto simp: elems_get_size)

declare category_matches_schema.simps [simp del]

definition config_matches_schema :: "json \<Rightarrow> bool" where
  "config_matches_schema json =
     (isArray (get json ''categories'') \<and>
      list_all category_matches_schema (elems (get json ''categories'')))"

text \<open>
  A parsed page or category stands for an entry of the JSON: it has the entry's name
  (and url), and its pages and child categories stand, one for one and in order, for
  the entries of the JSON that are not dropped.
\<close>

definition page_parsed_from :: "json \<Rightarrow> page \<Rightarrow> bool" where
  "page_parsed_from pageJson p =
     (page_name p = get pageJson ''name'' \<and> page_url p = get pageJson ''url'')"

function category_parsed_from :: "json \<Rightarrow> category \<Rightarrow> bool" where
  "category_parsed_from categoryJson c =
     (category_name c = get categoryJson ''name'' \<and>
      list_all2 page_parsed_from
        (filter (\<lambda>p. \<not> page_dropped p) (elems (get categoryJson ''pages'')))
        (category_pages c) \<and>
      list_all2 category_parsed_from
        (filter (\<lambda>s. \<not> category_dropped s) (elems (get categoryJson ''categories'')))
        (category_categories c))"
  by pat_completeness auto
termination
  by (relation "measure (\<lambda>(categoryJson, c). size categoryJson)") (auto simp: elems_get_size)

declare category_parsed_from.simps [simp del]

subsection \<open>The categories the descent constructs\<close>

text \<open>
  \<open>kept_category json c\<close>: the descent of \<open>parse(json)\<close> reaches the entry \<open>c\<close>, at any
  depth, and constructs a Category for it: every entry on the way to \<open>c\<close>, and \<open>c\<close>
  itself, passed the filter \<open>cat && cat.name\<close>.
\<close>

inductive kept_category :: "json \<Rightarrow> json \<Rightarrow> bool" for json :: json where
  top_kept:
    "truthy json \<Longrightarrow> c \<in> set (elems (get json ''categories'')) \<Longrightarrow>
     truthy c \<Longrightarrow> truthy (get c ''name'') \<Longrightarrow> kept_category json c"
| sub_kept:
    "kept_category json p \<Longrightarrow> c \<in> set (elems (get p ''categories'')) \<Longrightarrow>
     truthy c \<Longrightarrow> truthy (get c ''name'') \<Longrightarrow> kept_category json c"

section \<open>CacheService\<close>

text \<open>
  The \<open>CacheService\<close> class (js/services/CacheService.js) is not among the sources; only
  its unit tests are. Every definition of this section is modelled from the
  specification, and says so.
\<close>

text \<open>
  Modelled from the spec: an entry of the page-info tier, which is not among the
  sources. It holds \<open>lastEditedTime\<close> and the optional \<open>icon\<close>, and is annotated with
  \<open>cachedAt\<close> at write time.
\<close>

record page_info =
  lastEditedTime :: json
  icon :: json
  cachedAt :: nat

text \<open>
  Modelled from the spec: the state of the \<open>CacheService\<close>, which is not among the
  sources. Three tiers, each keyed by page identifier and independent of the others:
  the persisted blocks, the persisted page information, and the rendered HTML, which
  is held in memory only, in insertion order (the unit tests read its keys with
  \<open>Object.keys(cacheService.localHtmlCache)\<close>).
\<close>

record cache_service =
  blocksCache :: "string \<rightharpoonup> json"
  pageInfoCache :: "string \<rightharpoonup> page_info"
  localHtmlCache :: "(string \<times> string) list"

text \<open>
  Modelled from the spec: the constructor of \<open>CacheService\<close>, which is not among the
  sources, on empty storage (the unit tests clear \<open>localStorage\<close> before each case). The
  HTML tier is never persisted, so it always starts empty.
\<close>

definition new_CacheService :: cache_service where
  "new_CacheService = \<lparr>blocksCache = Map.empty, pageInfoCache = Map.empty, localHtmlCache = []\<rparr>"

text \<open>
  Modelled from the spec: \<open>getCachedBlocks\<close>, which is not among the sources. It
  returns the blocks, or \<open>null\<close> (\<open>None\<close>) on a miss.
\<close>

definition getCachedBlocks :: "cache_service \<Rightarrow> string \<Rightarrow> json option" where
  "getCachedBlocks s pageId = blocksCache s pageId"

text \<open>
  Modelled from the spec: \<open>setCachedBlocks\<close>, which is not among the sources. It stores
  the blocks whatever \<open>forceRefresh\<close> is: the forced-versus-lazy distinction is a
  contract of the callers, not enforced inside (the unit tests store with
  \<open>forceRefresh = false\<close> and read the blocks back).
\<close>

definition setCachedBlocks :: "cache_service \<Rightarrow> string \<Rightarrow> json \<Rightarrow> bool \<Rightarrow> cache_service" where
  "setCachedBlocks s pageId blocks forceRefresh = s\<lparr>blocksCache := (blocksCache s)(pageId \<mapsto> blocks)\<rparr>"

text \<open>
  Modelled from the spec: \<open>removeCachedBlocks\<close>, which is not among the sources. It
  deletes the entry; the absence of one is not an error.
\<close>

definition removeCachedBlocks :: "cache_service \<Rightarrow> string \<Rightarrow> cache_service" where
  "removeCachedBlocks s pageId = s\<lparr>blocksCache := (blocksCache s)(pageId := None)\<rparr>"

text \<open>
  Modelled from the spec: \<open>getCachedPageInfo\<close>, which is not among the sources. It
  returns the entry, or \<open>null\<close> (\<open>None\<close>) on a miss.
\<close>

definition getCachedPageInfo :: "cache_service \<Rightarrow> string \<Rightarrow> page_info option" where
  "getCachedPageInfo s pageId = pageInfoCache s pageId"

text \<open>
  Modelled from the spec: \<open>setCachedPageInfo\<close>, which is not among the sources. It
  stamps \<open>cachedAt\<close> with the current time, here the argument \<open>now\<close>, at write.
\<close>

definition setCachedPageInfo :: "cache_service \<Rightarrow> string \<Rightarrow> json \<Rightarrow> json \<Rightarrow> nat \<Rightarrow> cache_service" where
  "setCachedPageInfo s pageId edited icn now =
     s\<lparr>pageInfoCache := (pageInfoCache s)
          (pageId \<mapsto> \<lparr>lastEditedTime = edited, icon = icn, cachedAt = now\<rparr>)\<rparr>"

text \<open>
  Modelled from the spec: the capacity of the rendered-HTML tier, a constant of the
  missing \<open>CacheService\<close>. It is fixed at 20 entries.
\<close>

definition html_cache_capacity :: nat where
  "html_cache_capacity = 20"

text \<open>
  Modelled from the spec: \<open>saveHtmlToLocalCache\<close>, which is not among the sources. An
  insertion beyond the capacity evicts the oldest entry by insertion order. The
  specification does not say what a save under a key that is already there does to the
  position of the key; here, as an assignment to a property of an object does, it
  replaces the HTML where the key stands.
\<close>

definition saveHtmlToLocalCache :: "cache_service \<Rightarrow> string \<Rightarrow> string \<Rightarrow> cache_service" where
  "saveHtmlToLocalCache s pageId html =
     (let saved = AList.update pageId html (localHtmlCache s)
      in s\<lparr>localHtmlCache := (if length saved > html_cache_capacity then tl saved else saved)\<rparr>)"

text \<open>
  Modelled from the spec: \<open>getHtmlFromLocalCache\<close>, which is not among the sources. It
  returns the HTML, or \<open>null\<close> (\<open>None\<close>), and changes nothing: re-accessing an entry does
  not refresh its position.
\<close>

definition getHtmlFromLocalCache :: "cache_service \<Rightarrow> string \<Rightarrow> string option" where
  "getHtmlFromLocalCache s pageId = map_of (localHtmlCache s) pageId"

text \<open>
  Modelled from the spec: \<open>clearLocalCache\<close>, which is not among the sources. It empties
  the in-memory HTML tier only and does not touch the persisted tiers.
\<close>

definition clearLocalCache :: "cache_service \<Rightarrow> cache_service" where
  "clearLocalCache s = s\<lparr>localHtmlCache := []\<rparr>"

text \<open>A sequence of \<open>saveHtmlToLocalCache\<close> calls, in order.\<close>

definition save_all :: "(string \<times> string) list \<Rightarrow> cache_service \<Rightarrow> cache_service" where
  "save_all saves s = fold (\<lambda>(pageId, html) s. saveHtmlToLocalCache s pageId html) saves s"

text \<open>
  The 21 calls of the unit test "debe limitar a 20 entradas":
  \<open>saveHtmlToLocalCache(`page-${i}`, `<div>${i}</div>`)\<close> for \<open>i\<close> from 0 to 20.
\<close>

definition test_saves :: "(string \<times> string) list" where
  "test_saves = map (\<lambda>i. (''page-'' @ show_nat i, ''<div>'' @ show_nat i @ ''</div>'')) [0..<21]"

section \<open>Example inputs\<close>

text \<open>
  The configuration of the unit test "debe detectar pagina sin nombre" (a page without
  name), with a second page that breaks three rules at once, followed by a second
  category whose \<open>categories\<close> is a string.
\<close>

definition faulty_page :: json where
  "faulty_page = JObj [(''blockTypes'', JStr ''quote'')]"

definition config_page_without_name :: json where
  "config_page_without_name =
     JObj [(''categories'', JArr
       [JObj [(''name'', JStr ''Test''),
              (''pages'', JArr [JObj [(''url'', JStr ''https://...'')], faulty_page] [])],
        JObj [(''name'', JStr ''Other''), (''categories'', JStr ''x'')]] [])]"

text \<open>
  A configuration with a category whose \<open>categories\<close> is there, is not an array and is
  falsy.
\<close>

definition category_with_zero :: json where
  "category_with_zero = JObj [(''name'', JStr ''A''), (''categories'', JNum 0)]"

definition config_with_zero :: json where
  "config_with_zero = JObj [(''categories'', JArr [category_with_zero] [])]"

text \<open>
  A legacy configuration: a page with \<open>visible\<close>, a page without \<open>url\<close>, a category
  without \<open>name\<close>, a \<open>null\<close> inside a nested \<open>categories\<close>, an unknown top-level field;
  what \<open>migrate\<close> makes of it; and its first category alone.
\<close>

definition legacy_config :: json where
  "legacy_config =
     JObj [(''version'', JNum 1),
           (''categories'', JArr
              [JObj [(''name'', JStr ''Test''),
                     (''pages'', JArr
                        [JObj [(''name'', JStr ''Valid''), (''url'', JStr ''https://...''),
                               (''visible'', JBool True)],
                         JObj [(''name'', JStr ''Invalid'')]] []),
                     (''categories'', JArr [JNull, JObj [(''collapsed'', JBool True)]] [])]] [])]"

definition legacy_config_migrated :: json where
  "legacy_config_migrated =
     JObj [(''version'', JNum 1),
           (''categories'', JArr
              [JObj [(''name'', JStr ''Test''),
                     (''pages'', JArr
                        [JObj [(''name'', JStr ''Valid''), (''url'', JStr ''https://...''),
                               (''visibleToPlayers'', JBool True)]] []),
                     (''categories'', JArr
                        [JObj [(''name'', JStr ''Unnamed Category''),
                               (''pages'', JArr [] []),
                               (''categories'', JArr [] []),
                               (''collapsed'', JBool True)]] [])]] [])]"

definition legacy_category :: json where
  "legacy_category =
     JObj [(''name'', JStr ''Test''),
           (''pages'', JArr
              [JObj [(''name'', JStr ''Valid''), (''url'', JStr ''https://...''),
                     (''visible'', JBool True)],
               JObj [(''name'', JStr ''Invalid'')]] [])]"

definition legacy_category_migrated :: json where
  "legacy_category_migrated =
     JObj [(''name'', JStr ''Test''),
           (''pages'', JArr
              [JObj [(''name'', JStr ''Valid''), (''url'', JStr ''https://...''),
                     (''visibleToPlayers'', JBool True)]] []),
           (''categories'', JArr [] [])]"

text \<open>
  A Category constructor that throws on a category without pages, and a configuration
  with such a category two levels down.
\<close>

definition strict_Category :: "category category_constructor" where
  "strict_Category name pages categories collapsed =
     (if pages = [] then Inl TypeError else Inr (Category name pages categories collapsed))"

definition nested_config :: json where
  "nested_config =
     JObj [(''categories'', JArr
       [JObj [(''name'', JStr ''Characters''),
              (''pages'', JArr [JObj [(''name'', JStr ''Map''), (''url'', JStr ''https://...'')]] []),
              (''categories'', JArr
                 [JObj [(''name'', JStr ''NPCs''), (''pages'', JStr ''none'')]] [])]] [])]"

text \<open>
  Four entries, of which a null, one without name and one with an empty name are
  dropped; of the three pages of the first, the one without url and the null are dropped.
\<close>

definition sparse_config :: json where
  "sparse_config =
     JObj [(''categories'', JArr
       [JObj [(''name'', JStr ''NPCs''),
              (''pages'', JArr
                 [JObj [(''name'', JStr ''Gandalf''), (''url'', JStr ''https://notion.so/gandalf'')],
                  JObj [(''name'', JStr ''NoUrl'')],
                  JNull] [])],
        JNull,
        JObj [(''pages'', JArr [] [])],
        JObj [(''name'', JStr [])]] [])]"



section \<open>Properties of validate\<close>

lemma subcategories_induct [case_names category]:
  assumes "\<And>c. (\<And>x. x \<in> set (elems (get c ''categories'')) \<Longrightarrow> P x) \<Longrightarrow> P c"
  shows "P a"
proof (induction a rule: measure_induct_rule [where f = size])
  case (less c)
  show ?case
    by (rule assms) (simp add: less elems_get_size)
qed

lemma get_defined_truthy: "get v k \<noteq> JUndef \<Longrightarrow> truthy v"
  by (cases v) simp_all


lemma nonempty_string_iff: "nonempty_string v \<longleftrightarrow> truthy v \<and> isString v"
  by (cases v) (simp_all add: nonempty_string_def)

lemma forEach_errors_mem:
  "m \<in> set (forEach_errors f xs) \<longleftrightarrow> (\<exists>i < length xs. m \<in> set (f (xs ! i) i))"
proof
  assume "m \<in> set (forEach_errors f xs)"
  then show "\<exists>i < length xs. m \<in> set (f (xs ! i) i)"
    by (auto simp: forEach_errors_def in_set_enumerate_eq)
next
  assume "\<exists>i < length xs. m \<in> set (f (xs ! i) i)"
  then obtain i where i: "i < length xs" "m \<in> set (f (xs ! i) i)" by blast
  then have "(i, xs ! i) \<in> set (enumerate 0 xs)"
    by (simp add: in_set_enumerate_eq)
  with i(2) show "m \<in> set (forEach_errors f xs)"
    unfolding forEach_errors_def by fastforce
qed

lemma forEach_errors_nth:
  "i < length xs \<Longrightarrow> set (f (xs ! i) i) \<subseteq> set (forEach_errors f xs)"
  by (auto simp: forEach_errors_mem)

lemma validate_errors_array:
  "truthy json \<Longrightarrow> isArray (get json ''categories'') \<Longrightarrow>
   errors (validate json) =
     forEach_errors (\<lambda>cat index. validateCategory cat (indexed ''categories'' index))
       (elems (get json ''categories''))"
  by (cases "get json ''categories''") (simp_all add: validate_def Let_def)

text \<open>
  With "present" read as truthy, the rules a page breaks are, message for message and
  in order, what \<open>_validatePage\<close> returns.
\<close>

lemma page_violations_truthy: "page_violations truthy p path = validatePage p path"
  by (simp add: page_violations_def validatePage_def rule_nonempty_def rule_string_def
      rule_array_def nonempty_string_iff)

text \<open>
  What \<open>_validateCategory\<close> returns: the messages of the rules the category breaks,
  then those of its pages, then those of its child categories.
\<close>

lemma isArray_truthy: "isArray v \<Longrightarrow> truthy v"
  by (cases v) simp_all

lemma validateCategory_set:
  "set (validateCategory c path) =
     set (category_violations truthy c path)
     \<union> (if truthy c \<and> isArray (get c ''pages'')
        then set (forEach_errors (\<lambda>page index. validatePage page (indexed (path @ ''.pages'') index))
               (elems (get c ''pages'')))
        else {})
     \<union> (if truthy c \<and> isArray (get c ''categories'')
        then set (forEach_errors
               (\<lambda>subcat index. validateCategory subcat (indexed (path @ ''.categories'') index))
               (elems (get c ''categories'')))
        else {})"
  by (subst validateCategory.simps)
     (auto simp: category_violations_def rule_nonempty_def rule_string_def rule_array_def
        nonempty_string_iff isArray_truthy)

lemma category_violations_errors:
  "set (category_violations truthy c path) \<subseteq> set (validateCategory c path)"
  by (auto simp: validateCategory_set [of c path])

lemma sub_category_errors:
  "truthy c \<Longrightarrow> isArray (get c ''categories'') \<Longrightarrow> i < length (elems (get c ''categories'')) \<Longrightarrow>
   set (validateCategory (elems (get c ''categories'') ! i) (indexed (path @ ''.categories'') i))
     \<subseteq> set (validateCategory c path)"
  by (auto simp: validateCategory_set [of c path] forEach_errors_mem)

lemma category_page_errors:
  "truthy c \<Longrightarrow> isArray (get c ''pages'') \<Longrightarrow> i < length (elems (get c ''pages'')) \<Longrightarrow>
   set (validatePage (elems (get c ''pages'') ! i) (indexed (path @ ''.pages'') i))
     \<subseteq> set (validateCategory c path)"
  by (auto simp: validateCategory_set [of c path] forEach_errors_mem)

lemma category_node_errors:
  "category_node json path c \<Longrightarrow> set (validateCategory c path) \<subseteq> set (errors (validate json))"
proof (induction rule: category_node.induct)
  case (top_category i)
  then show ?case
    using forEach_errors_nth [of i "elems (get json ''categories'')"
        "\<lambda>cat index. validateCategory cat (indexed ''categories'' index)"]
    by (simp add: validate_errors_array)
next
  case (sub_category path c i)
  then show ?case
    using sub_category_errors [of c i path] by blast
qed

lemma page_node_errors:
  "page_node json path p \<Longrightarrow> set (validatePage p path) \<subseteq> set (errors (validate json))"
proof (induction rule: page_node.induct)
  case (category_page path c i)
  then show ?case
    using category_page_errors [of c i path] category_node_errors [of json path c] by blast
qed

lemma validate_valid_iff: "valid (validate json) \<longleftrightarrow> truthy json \<and> errors (validate json) = []"
  by (auto simp: validate_def Let_def)




subsection \<open>Paths name their nodes\<close>


















subsection \<open>Which node a message about a field that is not an array comes from\<close>











subsection \<open>Every violation is reported\<close>

text \<open>
  Claim C6, as the code has it. \<open>validate\<close> reports every problem, not only the first.
  Whenever the top-level \<open>categories\<close> is an array, for every category the walk reaches
  (at any depth, after any number of faulty siblings) each rule the category breaks
  has its message, under the category's path, in the returned list, and the result is
  invalid; the same holds for each rule broken by every page of every such category.
  Here a \<open>pages\<close>, \<open>categories\<close> or \<open>blockTypes\<close> breaks its rule when its value is truthy
  and not an array: a value that is there but falsy is accepted like an absent one. In
  particular a page without \<open>name\<close> makes the result invalid, and the list holds
  "falta nombre o no es string" under the path of that page.
\<close>

theorem validate_reports_every_violation:
  "(category_node json cpath c \<longrightarrow>
      set (category_violations truthy c cpath) \<subseteq> set (errors (validate json)) \<and>
      (category_violations truthy c cpath \<noteq> [] \<longrightarrow> \<not> valid (validate json)))
   \<and> (page_node json ppath p \<longrightarrow>
      set (page_violations truthy p ppath) \<subseteq> set (errors (validate json)) \<and>
      (page_violations truthy p ppath \<noteq> [] \<longrightarrow> \<not> valid (validate json)))
   \<and> (page_node json ppath p \<and> truthy p \<and> get p ''name'' = JUndef \<longrightarrow>
      \<not> valid (validate json) \<and>
      ppath @ '': falta nombre o no es string'' \<in> set (errors (validate json)))"
proof (intro conjI impI)
  assume n: "category_node json cpath c"
  show sub: "set (category_violations truthy c cpath) \<subseteq> set (errors (validate json))"
    using category_node_errors [OF n] category_violations_errors [of c cpath] by blast
  assume "category_violations truthy c cpath \<noteq> []"
  with sub have "errors (validate json) \<noteq> []" by auto
  then show "\<not> valid (validate json)" by (simp add: validate_valid_iff)
next
  assume n: "page_node json ppath p"
  show sub: "set (page_violations truthy p ppath) \<subseteq> set (errors (validate json))"
    using page_node_errors [OF n] by (simp add: page_violations_truthy)
  assume "page_violations truthy p ppath \<noteq> []"
  with sub have "errors (validate json) \<noteq> []" by auto
  then show "\<not> valid (validate json)" by (simp add: validate_valid_iff)
next
  assume a: "page_node json ppath p \<and> truthy p \<and> get p ''name'' = JUndef"
  then have "ppath @ '': falta nombre o no es string'' \<in> set (page_violations truthy p ppath)"
    by (simp add: page_violations_def rule_string_def nonempty_string_def)
  with a page_node_errors [of json ppath p]
  show m: "ppath @ '': falta nombre o no es string'' \<in> set (errors (validate json))"
    by (auto simp: page_violations_truthy)
  then have "errors (validate json) \<noteq> []" by auto
  then show "\<not> valid (validate json)" by (simp add: validate_valid_iff)
qed

lemma config_page_without_name_nodes:
  "category_node config_page_without_name ''categories[1]''
     (JObj [(''name'', JStr ''Other''), (''categories'', JStr ''x'')])"
  "page_node config_page_without_name ''categories[0].pages[0]''
     (JObj [(''url'', JStr ''https://...'')])"
  "page_node config_page_without_name ''categories[0].pages[1]'' faulty_page"
proof -
  have c0: "category_node config_page_without_name ''categories[0]''
     (JObj [(''name'', JStr ''Test''),
            (''pages'', JArr [JObj [(''url'', JStr ''https://...'')], faulty_page] [])])"
    using top_category [of config_page_without_name 0]
    by (simp add: config_page_without_name_def indexed_def show_nat.simps)
  show "category_node config_page_without_name ''categories[1]''
     (JObj [(''name'', JStr ''Other''), (''categories'', JStr ''x'')])"
    using top_category [of config_page_without_name 1]
    by (simp add: config_page_without_name_def indexed_def show_nat.simps)
  show "page_node config_page_without_name ''categories[0].pages[0]''
     (JObj [(''url'', JStr ''https://...'')])"
    using category_page [OF c0, of 0] by (simp add: indexed_def show_nat.simps)
  show "page_node config_page_without_name ''categories[0].pages[1]'' faulty_page"
    using category_page [OF c0, of 1] by (simp add: indexed_def show_nat.simps)
qed

theorem validate_reports_every_violation_witness:
  "category_node config_page_without_name ''categories[1]''
     (JObj [(''name'', JStr ''Other''), (''categories'', JStr ''x'')])
   \<and> page_node config_page_without_name ''categories[0].pages[0]''
     (JObj [(''url'', JStr ''https://...'')])
   \<and> page_node config_page_without_name ''categories[0].pages[1]'' faulty_page
   \<and> ''categories[0].pages[0]: falta nombre o no es string''
        \<in> set (errors (validate config_page_without_name))
   \<and> ''categories[0].pages[1]: falta nombre o no es string''
        \<in> set (errors (validate config_page_without_name))
   \<and> ''categories[0].pages[1]: falta URL o no es string''
        \<in> set (errors (validate config_page_without_name))
   \<and> ''categories[0].pages[1].blockTypes: debe ser un array''
        \<in> set (errors (validate config_page_without_name))
   \<and> ''categories[1].categories: debe ser un array''
        \<in> set (errors (validate config_page_without_name))
   \<and> \<not> valid (validate config_page_without_name)"
proof -
  have v: "page_violations truthy faulty_page ''categories[0].pages[1]''
      = [''categories[0].pages[1]: falta nombre o no es string'',
         ''categories[0].pages[1]: falta URL o no es string'',
         ''categories[0].pages[1].blockTypes: debe ser un array'']"
    by (simp add: page_violations_def faulty_page_def rule_nonempty_def rule_string_def
        rule_array_def nonempty_string_def)
  have w: "category_violations truthy
        (JObj [(''name'', JStr ''Other''), (''categories'', JStr ''x'')]) ''categories[1]''
      = [''categories[1].categories: debe ser un array'']"
    by (simp add: category_violations_def rule_nonempty_def rule_string_def rule_array_def
        nonempty_string_def)
  show ?thesis
    using config_page_without_name_nodes v w
      validate_reports_every_violation [of config_page_without_name "''categories[1]''"
        "JObj [(''name'', JStr ''Other''), (''categories'', JStr ''x'')]"
        "''categories[0].pages[1]''" faulty_page]
      validate_reports_every_violation [of config_page_without_name "''categories[1]''"
        "JObj [(''name'', JStr ''Other''), (''categories'', JStr ''x'')]"
        "''categories[0].pages[0]''" "JObj [(''url'', JStr ''https://...'')]"]
    by simp
qed

text \<open>
  The claim as written, with the rules as the specification words them, fails where a
  field is there, is not an array and is falsy: the rule "if present, must be an
  array" is broken and \<open>validate\<close> reports nothing.
\<close>

lemma config_with_zero_node:
  "category_node config_with_zero ''categories[0]'' category_with_zero"
  using top_category [of config_with_zero 0]
  by (simp add: config_with_zero_def indexed_def show_nat.simps)

theorem validate_reports_every_violation_counterexample:
  "category_node config_with_zero ''categories[0]'' category_with_zero
   \<and> ''categories[0].categories: debe ser un array''
        \<in> set (category_violations present category_with_zero ''categories[0]'')
   \<and> validate config_with_zero = \<lparr>valid = True, errors = []\<rparr>"
proof -
  note config_with_zero_node
  moreover have "''categories[0].categories: debe ser un array''
        \<in> set (category_violations present category_with_zero ''categories[0]'')"
    by (simp add: category_violations_def category_with_zero_def rule_nonempty_def
        rule_string_def rule_array_def nonempty_string_def present_def)
  moreover have "validate config_with_zero = \<lparr>valid = True, errors = []\<rparr>"
    unfolding config_with_zero_def category_with_zero_def by code_simp
  ultimately show ?thesis by simp
qed

section \<open>Properties of migrate\<close>

lemma mapM_pure: "mapM (\<lambda>x. Inr (g x)) xs = Inr (map g xs)"
  by (induction xs) simp_all

lemma mapM_Inr_iff: "mapM f xs = Inr ys \<longleftrightarrow> list_all2 (\<lambda>x y. f x = Inr y) xs ys"
proof (induction xs arbitrary: ys)
  case Nil
  show ?case by auto
next
  case (Cons x xs)
  show ?case
    by (cases ys) (auto simp: Cons.IH [symmetric] split: sum.splits)
qed

lemma mapM_fixed: "(\<And>x. x \<in> set xs \<Longrightarrow> f x = Inr x) \<Longrightarrow> mapM f xs = Inr xs"
  by (induction xs) simp_all

lemma truthy_js_or: "truthy (js_or a b) \<longleftrightarrow> truthy a \<or> truthy b"
  by (simp add: js_or_def)

lemma migrateCategory_falsy: "\<not> truthy c \<Longrightarrow> migrateCategory c = Inr JNull"
  by (simp add: migrateCategory.simps [of c])

text \<open>What a returning \<open>_migrateCategory\<close> has seen and built.\<close>

lemma migrateCategory_InrE:
  assumes "migrateCategory c = Inr r" and "truthy c"
  obtains cs where
    "isArray (js_or (get c ''pages'') (JArr [] []))"
    "isArray (js_or (get c ''categories'') (JArr [] []))"
    "mapM migrateCategory (elems (js_or (get c ''categories'') (JArr [] []))) = Inr cs"
    "r = JObj
       ([(''name'', js_or (get c ''name'') (JStr ''Unnamed Category'')),
         (''pages'', JArr (filter truthy
            (map migratePage (elems (js_or (get c ''pages'') (JArr [] []))))) []),
         (''categories'', JArr (filter truthy cs) [])]
        @ (if get c ''collapsed'' \<noteq> JUndef then [(''collapsed'', get c ''collapsed'')] else []))"
  using assms
  by (subst (asm) migrateCategory.simps)
     (auto simp: js_map_def mapM_pure split: sum.splits if_splits)

lemma truthy_migratePage:
  "truthy (migratePage p) \<longleftrightarrow> truthy p \<and> truthy (get p ''url'')"
  by (simp add: migratePage_def)

lemma map_of_spread_if:
  "map_of (spread_if p k') k = (if k = k' \<and> truthy (get p k') then Some (get p k') else None)"
  by (simp add: spread_if_def)

text \<open>The fields of a migrated page.\<close>

lemma get_migratePage:
  assumes "truthy (migratePage p)"
  shows "get (migratePage p) ''name'' = js_or (get p ''name'') (JStr ''Unnamed Page'')"
    and "get (migratePage p) ''url'' = get p ''url''"
    and "get (migratePage p) ''visibleToPlayers'' =
           js_or (js_or (get p ''visibleToPlayers'') (get p ''visible'')) (JBool False)"
    and "get (migratePage p) ''visible'' = JUndef"
    and "get (migratePage p) ''blockTypes'' =
           (if truthy (get p ''blockTypes'') then get p ''blockTypes'' else JUndef)"
    and "get (migratePage p) ''icon'' = (if truthy (get p ''icon'') then get p ''icon'' else JUndef)"
    and "get (migratePage p) ''linkedTokenId'' =
           (if truthy (get p ''linkedTokenId'') then get p ''linkedTokenId'' else JUndef)"
  using assms
  by (simp_all add: migratePage_def map_add_def map_of_spread_if split: if_splits)

lemma js_or_truthy: "truthy a \<Longrightarrow> js_or a b = a"
  by (simp add: js_or_def)

lemma js_or_idem: "js_or (js_or a b) b = js_or a b"
  by (simp add: js_or_def)

lemma js_or_undef: "js_or (js_or a JUndef) b = js_or a b"
  by (simp add: js_or_def)

lemma spread_if_migratePage:
  assumes "truthy (migratePage p)"
  shows "spread_if (migratePage p) ''blockTypes'' = spread_if p ''blockTypes''"
    and "spread_if (migratePage p) ''icon'' = spread_if p ''icon''"
    and "spread_if (migratePage p) ''linkedTokenId'' = spread_if p ''linkedTokenId''"
  by (simp_all add: spread_if_def get_migratePage [OF assms])

lemma migratePage_idem: "truthy (migratePage p) \<Longrightarrow> migratePage (migratePage p) = migratePage p"
proof -
  assume t: "truthy (migratePage p)"
  then have u: "truthy p" "truthy (get p ''url'')"
    by (simp_all add: truthy_migratePage)
  have "migratePage (migratePage p) =
      JObj ([(''name'', js_or (get p ''name'') (JStr ''Unnamed Page'')),
             (''url'', get p ''url''),
             (''visibleToPlayers'',
                js_or (js_or (get p ''visibleToPlayers'') (get p ''visible'')) (JBool False))]
            @ spread_if p ''blockTypes'' @ spread_if p ''icon'' @ spread_if p ''linkedTokenId'')"
    unfolding migratePage_def [of "migratePage p"]
    using t u
    by (simp add: get_migratePage [OF t] spread_if_migratePage [OF t] js_or_idem js_or_undef)
  also have "\<dots> = migratePage p"
    using u by (simp add: migratePage_def)
  finally show ?thesis .
qed

lemma truthy_migrateCategory: "migrateCategory c = Inr r \<Longrightarrow> truthy r \<longleftrightarrow> truthy c"
  by (cases "truthy c") (auto simp: migrateCategory_falsy elim: migrateCategory_InrE)

text \<open>The fields of the object \<open>_migrateCategory\<close> builds.\<close>

lemma get_category_object:
  fixes n ps cs col
  defines "r \<equiv> JObj ([(''name'', n), (''pages'', ps), (''categories'', cs)]
                     @ (if col \<noteq> JUndef then [(''collapsed'', col)] else []))"
  shows "get r ''name'' = n" and "get r ''pages'' = ps" and "get r ''categories'' = cs"
    and "get r ''collapsed'' = col" and "truthy r"
  by (simp_all add: r_def)

lemma list_all2_rightD:
  "list_all2 P xs ys \<Longrightarrow> y \<in> set ys \<Longrightarrow> \<exists>x \<in> set xs. P x y"
  by (induction rule: list_all2_induct) auto

lemma migrateCategory_idem: "migrateCategory c = Inr r \<Longrightarrow> migrateCategory r = Inr r"
proof (induction c arbitrary: r rule: migrateCategory.induct)
  case (1 c)
  show ?case
  proof (cases "truthy c")
    case False
    with "1.prems" have "r = JNull" by (simp add: migrateCategory_falsy)
    then show ?thesis by (simp add: migrateCategory_falsy)
  next
    case True
    let ?P = "js_or (get c ''pages'') (JArr [] [])"
    let ?C = "js_or (get c ''categories'') (JArr [] [])"
    let ?n = "js_or (get c ''name'') (JStr ''Unnamed Category'')"
    let ?ps = "filter truthy (map migratePage (elems ?P))"
    from "1.prems" True obtain cs where
      arrP: "isArray ?P" and arrC: "isArray ?C" and
      cs: "mapM migrateCategory (elems ?C) = Inr cs" and
      r: "r = JObj ([(''name'', ?n), (''pages'', JArr ?ps []),
                     (''categories'', JArr (filter truthy cs) [])]
                    @ (if get c ''collapsed'' \<noteq> JUndef
                       then [(''collapsed'', get c ''collapsed'')] else []))"
      by (rule migrateCategory_InrE)
    note f = get_category_object [of ?n "JArr ?ps []" "JArr (filter truthy cs) []"
        "get c ''collapsed''", folded r]
    have pagesP: "js_map (\<lambda>p. Inr (migratePage p)) ?P = Inr (map migratePage (elems ?P))"
      using arrP by (simp add: js_map_def mapM_pure)
    have cs_fixed: "migrateCategory y = Inr y" if "y \<in> set cs" for y
    proof -
      from cs have "list_all2 (\<lambda>x y. migrateCategory x = Inr y) (elems ?C) cs"
        by (simp add: mapM_Inr_iff)
      with that obtain x where "x \<in> set (elems ?C)" "migrateCategory x = Inr y"
        by (blast dest: list_all2_rightD)
      then show ?thesis
        using "1.IH" [of "map migratePage (elems ?P)" x y] True pagesP by simp
    qed
    have ps_fixed: "map migratePage ?ps = ?ps"
      by (rule map_idI) (auto simp: migratePage_idem)
    have n: "truthy ?n" by (simp add: js_or_def)
    have pages': "js_map (\<lambda>p. Inr (migratePage p)) (js_or (get r ''pages'') (JArr [] [])) = Inr ?ps"
      by (simp add: f js_or_truthy js_map_def mapM_pure ps_fixed)
    have cats': "js_map migrateCategory (js_or (get r ''categories'') (JArr [] []))
        = Inr (filter truthy cs)"
    proof -
      have "mapM migrateCategory (filter truthy cs) = Inr (filter truthy cs)"
        by (rule mapM_fixed) (simp add: cs_fixed)
      then show ?thesis by (simp add: f js_or_truthy js_map_def)
    qed
    have "migrateCategory r = Inr (JObj ([(''name'', ?n), (''pages'', JArr ?ps []),
                     (''categories'', JArr (filter truthy cs) [])]
                    @ (if get c ''collapsed'' \<noteq> JUndef
                       then [(''collapsed'', get c ''collapsed'')] else [])))"
      by (subst migrateCategory.simps) (simp add: pages' cats' f(1,4,5) js_or_idem)
    then show ?thesis by (simp add: r)
  qed
qed

subsection \<open>The clone, and JSON values\<close>

lemma is_json_not_undef: "is_json v \<Longrightarrow> v \<noteq> JUndef"
  by auto

lemma map_fst_map_value: "fst \<circ> (\<lambda>(k, v). (k, f v)) = fst"
  by (simp add: fun_eq_iff)

lemma is_json_clone: "v \<noteq> JUndef \<Longrightarrow> is_json (json_clone v)"
proof (induction v rule: json_clone.induct)
  case (1 xs ps)
  then show ?case by (auto simp: list_all_iff)
next
  case (2 kvs)
  have "distinct (map fst (filter (\<lambda>(k, v). v \<noteq> JUndef) (AList.clearjunk kvs)))"
    by (rule distinct_map_filter) (rule AList.distinct_clearjunk)
  with 2 show ?case
    by (auto simp: list_all_iff map_fst_map_value)
qed simp_all

lemma json_clone_id: "is_json v \<Longrightarrow> json_clone v = v"
proof (induction v rule: json_clone.induct)
  case (1 xs ps)
  then have "map (\<lambda>x. if x = JUndef then JNull else json_clone x) xs = xs"
    by (intro map_idI) (auto simp: list_all_iff)
  with 1 show ?case by simp
next
  case (2 kvs)
  then have d: "AList.clearjunk kvs = kvs"
    by (simp add: AList.distinct_clearjunk_id)
  from 2 have f: "filter (\<lambda>(k, v). v \<noteq> JUndef) kvs = kvs"
    by (auto simp: list_all_iff filter_id_conv dest: is_json_not_undef)
  from 2 have "map (\<lambda>(k, v). (k, json_clone v)) kvs = kvs"
    by (intro map_idI) (auto simp: list_all_iff d f dest: is_json_not_undef)
  then show ?case by (simp add: d f)
qed simp_all

lemma is_json_get: "is_json v \<Longrightarrow> get v k \<noteq> JUndef \<Longrightarrow> is_json (get v k)"
  by (cases v) (auto simp: list_all_iff split: option.splits dest: map_of_SomeD)

lemma is_json_elems: "is_json v \<Longrightarrow> x \<in> set (elems v) \<Longrightarrow> is_json x"
  by (cases v) (auto simp: list_all_iff)

lemma is_json_js_or: "is_json b \<Longrightarrow> (truthy a \<Longrightarrow> is_json a) \<Longrightarrow> is_json (js_or a b)"
  by (simp add: js_or_def)

lemma truthy_not_undef: "truthy v \<Longrightarrow> v \<noteq> JUndef"
  by auto

lemma is_json_js_or_get: "is_json v \<Longrightarrow> is_json b \<Longrightarrow> is_json (js_or (get v k) b)"
  by (simp add: js_or_def is_json_get truthy_not_undef)

lemma spread_if_keys: "map fst (spread_if p k) = (if truthy (get p k) then [k] else [])"
  by (simp add: spread_if_def)

lemma spread_if_values: "is_json p \<Longrightarrow> list_all is_json (map snd (spread_if p k))"
  by (simp add: spread_if_def is_json_get truthy_not_undef)

lemma is_json_visible:
  "is_json p \<Longrightarrow>
   is_json (js_or (js_or (get p ''visibleToPlayers'') (get p ''visible'')) (JBool False))"
  by (simp add: js_or_def is_json_get truthy_not_undef)

lemma is_json_migratePage: "is_json p \<Longrightarrow> is_json (migratePage p)"
  by (simp add: migratePage_def spread_if_keys spread_if_values is_json_js_or_get
      is_json_visible is_json_get truthy_not_undef)

lemma is_json_migrateCategory: "is_json c \<Longrightarrow> migrateCategory c = Inr r \<Longrightarrow> is_json r"
proof (induction c arbitrary: r rule: migrateCategory.induct)
  case (1 c)
  show ?case
  proof (cases "truthy c")
    case False
    with "1.prems"(2) show ?thesis by (auto simp: migrateCategory_falsy)
  next
    case True
    let ?P = "js_or (get c ''pages'') (JArr [] [])"
    let ?C = "js_or (get c ''categories'') (JArr [] [])"
    from "1.prems"(2) True obtain cs where
      arrP: "isArray ?P" and arrC: "isArray ?C" and
      cs: "mapM migrateCategory (elems ?C) = Inr cs" and
      r: "r = JObj ([(''name'', js_or (get c ''name'') (JStr ''Unnamed Category'')),
                     (''pages'', JArr (filter truthy (map migratePage (elems ?P))) []),
                     (''categories'', JArr (filter truthy cs) [])]
                    @ (if get c ''collapsed'' \<noteq> JUndef
                       then [(''collapsed'', get c ''collapsed'')] else []))"
      by (rule migrateCategory_InrE)
    have jP: "is_json ?P" and jC: "is_json ?C"
      using "1.prems"(1) by (simp_all add: is_json_js_or_get)
    have pagesP: "js_map (\<lambda>p. Inr (migratePage p)) ?P = Inr (map migratePage (elems ?P))"
      using arrP by (simp add: js_map_def mapM_pure)
    have "is_json y" if "y \<in> set cs" for y
    proof -
      from cs have "list_all2 (\<lambda>x y. migrateCategory x = Inr y) (elems ?C) cs"
        by (simp add: mapM_Inr_iff)
      with that obtain x where x: "x \<in> set (elems ?C)" "migrateCategory x = Inr y"
        by (blast dest: list_all2_rightD)
      then show ?thesis
        using "1.IH" [of "map migratePage (elems ?P)" x y] True pagesP is_json_elems [OF jC]
        by simp
    qed
    then have cats: "list_all is_json (filter truthy cs)"
      by (simp add: list_all_iff)
    have pages: "list_all is_json (filter truthy (map migratePage (elems ?P)))"
      using is_json_elems [OF jP] by (auto simp: list_all_iff is_json_migratePage)
    show ?thesis
      using "1.prems"(1) cats pages
      by (simp add: r is_json_js_or_get is_json_get)
  qed
qed

subsection \<open>migrate, applied to its own result\<close>

lemma truthy_json_clone: "truthy (json_clone v) = truthy v"
  by (cases v) simp_all

lemma json_clone_twice: "json_clone (json_clone v) = json_clone v"
proof (cases "v = JUndef")
  case True
  then show ?thesis by simp
next
  case False
  then show ?thesis by (simp add: is_json_clone json_clone_id)
qed

lemma migrate_of_clone: "truthy x \<Longrightarrow> migrate (json_clone x) = migrate x"
  by (simp add: migrate_def [of x] migrate_def [of "json_clone x"] json_roundtrip_def
      truthy_json_clone json_clone_twice truthy_not_undef)

lemma values_update:
  "list_all P (map snd al) \<Longrightarrow> P v \<Longrightarrow> list_all P (map snd (AList.update k v al))"
  by (induction al) auto

lemma is_json_update:
  "is_json (JObj kvs) \<Longrightarrow> is_json v \<Longrightarrow> is_json (JObj (AList.update k v kvs))"
  by (simp add: AList.distinct_update values_update)

lemma get_update: "get (JObj (AList.update k v kvs)) k = v"
  by (simp add: AList.update_conv')

text \<open>
  A returning \<open>migrate\<close> on a JSON object has put under \<open>categories\<close> the array of
  the migrated entries of the \<open>categories\<close> it found.
\<close>

lemma elems_falsy: "\<not> truthy v \<Longrightarrow> elems v = []"
  by (cases v) simp_all

lemma migrate_object:
  assumes j: "is_json (JObj kvs)" and m: "migrate (JObj kvs) = Inr r"
  obtains cs where "r = JObj (AList.update ''categories'' (JArr cs []) kvs)"
    and "list_all2 (\<lambda>c y. migrateCategory c = Inr y) (elems (get (JObj kvs) ''categories'')) cs"
proof (cases "truthy (get (JObj kvs) ''categories'')")
  case False
  with m j have "r = JObj (AList.update ''categories'' (JArr [] []) kvs)"
    by (simp add: migrate_def json_roundtrip_def json_clone_id get_update js_map_def
        del: get.simps json_clone.simps is_json.simps)
  moreover from False have "elems (get (JObj kvs) ''categories'') = []"
    by (rule elems_falsy)
  ultimately show ?thesis by (intro that [of "[]"]) simp_all
next
  case True
  let ?C = "get (JObj kvs) ''categories''"
  from m j True obtain cs where
    cs: "js_map migrateCategory ?C = Inr cs" and
    r: "r = JObj (AList.update ''categories'' (JArr cs []) kvs)"
    by (auto simp: migrate_def json_roundtrip_def json_clone_id
        simp del: get.simps json_clone.simps is_json.simps split: sum.splits)
  from cs have "mapM migrateCategory (elems ?C) = Inr cs"
    by (simp add: js_map_def split: if_splits)
  then have "list_all2 (\<lambda>c y. migrateCategory c = Inr y) (elems ?C) cs"
    by (simp add: mapM_Inr_iff)
  with r show ?thesis by (rule that)
qed

lemma migrated_entries_fixed:
  assumes j: "is_json v"
    and l: "list_all2 (\<lambda>c y. migrateCategory c = Inr y) (elems (get v k)) cs"
    and c: "c \<in> set cs"
  shows "is_json c \<and> migrateCategory c = Inr c"
proof -
  from l c obtain x where x: "x \<in> set (elems (get v k))" "migrateCategory x = Inr c"
    by (blast dest: list_all2_rightD)
  then have "get v k \<noteq> JUndef" by auto
  with j have "is_json (get v k)" by (rule is_json_get)
  with x have "is_json x" by (blast intro: is_json_elems)
  with x show ?thesis
    using is_json_migrateCategory migrateCategory_idem by blast
qed

lemma migrate_fixed_object:
  assumes j: "is_json (JObj kvs)"
    and cs: "\<And>c. c \<in> set cs \<Longrightarrow> is_json c \<and> migrateCategory c = Inr c"
  shows "migrate (JObj (AList.update ''categories'' (JArr cs []) kvs))
         = Inr (JObj (AList.update ''categories'' (JArr cs []) kvs))"
proof -
  let ?r = "JObj (AList.update ''categories'' (JArr cs []) kvs)"
  have "is_json (JArr cs [])" using cs by (simp add: list_all_iff)
  with j have jr: "is_json ?r" by (rule is_json_update)
  have m: "mapM migrateCategory cs = Inr cs"
    by (rule mapM_fixed) (simp add: cs)
  show ?thesis
    using jr m
    by (simp add: migrate_def json_roundtrip_def json_clone_id get_update js_map_def
        del: get.simps json_clone.simps is_json.simps)
qed

lemma migrate_array:
  assumes "is_json (JArr xs ps)"
  shows "migrate (JArr xs ps) = Inr (JArr xs [(''categories'', JArr [] [])])"
    and "json_clone (JArr xs [(''categories'', JArr [] [])]) = JArr xs ps"
proof -
  from assms have ps: "ps = []" by simp
  from assms have c: "json_clone (JArr xs ps) = JArr xs ps" by (rule json_clone_id)
  show "migrate (JArr xs ps) = Inr (JArr xs [(''categories'', JArr [] [])])"
    using ps c by (simp add: migrate_def json_roundtrip_def js_map_def del: json_clone.simps)
  show "json_clone (JArr xs [(''categories'', JArr [] [])]) = JArr xs ps"
    using c by simp
qed

lemma migrate_primitive:
  "truthy y \<Longrightarrow> migrate y = Inr r \<Longrightarrow> (\<exists>kvs. y = JObj kvs) \<or> (\<exists>xs ps. y = JArr xs ps)"
  by (cases y) (simp_all add: migrate_def json_roundtrip_def)

lemma migrate_json_fixed:
  assumes j: "is_json y" and t: "truthy y" and m: "migrate y = Inr r"
  shows "migrate r = Inr r"
proof -
  from t m consider kvs where "y = JObj kvs" | xs ps where "y = JArr xs ps"
    using migrate_primitive by blast
  then show ?thesis
  proof cases
    case 1
    from j 1 have jk: "is_json (JObj kvs)" by simp
    from m 1 have mk: "migrate (JObj kvs) = Inr r" by simp
    from jk mk obtain cs where r: "r = JObj (AList.update ''categories'' (JArr cs []) kvs)"
      and cs: "list_all2 (\<lambda>c y. migrateCategory c = Inr y)
                 (elems (get (JObj kvs) ''categories'')) cs"
      by (rule migrate_object) blast
    show ?thesis
      unfolding r using jk migrated_entries_fixed [OF jk cs] by (rule migrate_fixed_object)
  next
    case 2
    with j m migrate_array [of xs ps]
    have r: "r = JArr xs [(''categories'', JArr [] [])]" and c: "json_clone r = y"
      and my: "migrate y = Inr r"
      by simp_all
    have "truthy r" by (simp add: r)
    then have "migrate r = migrate (json_clone r)" by (simp add: migrate_of_clone)
    with c my show ?thesis by simp
  qed
qed

text \<open>
  Claim C5. \<open>migrate\<close> is idempotent: whenever \<open>migrate(x)\<close> returns a value \<open>r\<close>,
  \<open>migrate(r)\<close> returns too, and what it returns is \<open>r\<close> again, property for property
  and element for element (which is more than deep equality asks: the order of the
  properties is the same as well).
\<close>

theorem migrate_idempotent: "migrate x = Inr r \<Longrightarrow> migrate r = Inr r"
proof (cases "truthy x")
  case False
  assume "migrate x = Inr r"
  with False have "r = JObj [(''categories'', JArr [] [])]"
    by (simp add: migrate_def)
  then show ?thesis
    by (simp add: migrate_def json_roundtrip_def js_map_def)
next
  case True
  assume "migrate x = Inr r"
  with True have "migrate (json_clone x) = Inr r"
    by (simp add: migrate_of_clone)
  moreover from True have "is_json (json_clone x)"
    by (intro is_json_clone truthy_not_undef)
  moreover from True have "truthy (json_clone x)"
    by (simp add: truthy_json_clone)
  ultimately show ?thesis
    by (intro migrate_json_fixed [of "json_clone x" r])
qed

lemma migrate_legacy_config: "migrate legacy_config = Inr legacy_config_migrated"
  unfolding legacy_config_def legacy_config_migrated_def
  by code_simp

theorem migrate_idempotent_witness:
  "migrate legacy_config = Inr legacy_config_migrated
   \<and> migrate legacy_config_migrated = Inr legacy_config_migrated"
  using migrate_legacy_config migrate_idempotent [of legacy_config legacy_config_migrated]
  by simp

subsection \<open>What migrate throws\<close>

text \<open>
  Claim C2. The claim is that no core operation propagates an exception, and names
  \<open>migrate\<close> on a category whose \<open>pages\<close> is present but not an array as a case that
  still returns. There \<open>(category.pages || []).map\<close> is not a function: \<open>migrate\<close> has no
  \<open>Array.isArray\<close> guard, unlike \<open>_parsePages\<close> and \<open>_validateCategory\<close>, and no
  \<open>try\<close>, unlike \<open>parse\<close>, and the \<open>TypeError\<close> reaches the caller.
\<close>

theorem migrate_throws_on_pages_not_array:
  "migrate (JObj [(''categories'', JArr
      [JObj [(''name'', JStr ''A''), (''pages'', JStr ''x'')]] [])]) = Inl TypeError"
  by code_simp

subsection \<open>Pages under migrate\<close>

lemma elems_js_or_empty: "elems (js_or v (JArr [] [])) = elems v"
  by (simp add: js_or_def elems_falsy)

lemma migrated_pages:
  "filter truthy (map migratePage ps)
   = map migratePage (filter (\<lambda>p. truthy p \<and> truthy (get p ''url'')) ps)"
  by (simp add: filter_map comp_def truthy_migratePage)

text \<open>
  Claim C3, as the code has it. A page is dropped by \<open>migrate\<close> exactly when it is
  falsy or its \<open>url\<close> is. Otherwise the migrated \<open>visibleToPlayers\<close> is the page's own
  when that is truthy, else the legacy \<open>visible\<close> when that is truthy, else \<open>false\<close>: a
  \<open>visibleToPlayers\<close> that is present and \<open>false\<close> is treated like an absent one. The
  pages of a migrated category are the migrated kept pages, in their order.
\<close>

theorem migratePage_visibility:
  "(migratePage p = JNull \<longleftrightarrow> \<not> truthy p \<or> \<not> truthy (get p ''url''))
   \<and> (truthy p \<and> truthy (get p ''url'') \<longrightarrow>
        get (migratePage p) ''visibleToPlayers'' =
          (if truthy (get p ''visibleToPlayers'') then get p ''visibleToPlayers''
           else if truthy (get p ''visible'') then get p ''visible''
           else JBool False))
   \<and> (truthy c \<and> migrateCategory c = Inr r \<longrightarrow>
        get r ''pages'' =
          JArr (map migratePage
                 (filter (\<lambda>p. truthy p \<and> truthy (get p ''url'')) (elems (get c ''pages'')))) [])"
proof (intro conjI impI)
  show "migratePage p = JNull \<longleftrightarrow> \<not> truthy p \<or> \<not> truthy (get p ''url'')"
    by (simp add: migratePage_def)
next
  assume "truthy p \<and> truthy (get p ''url'')"
  then have "truthy (migratePage p)" by (simp add: truthy_migratePage)
  then show "get (migratePage p) ''visibleToPlayers'' =
          (if truthy (get p ''visibleToPlayers'') then get p ''visibleToPlayers''
           else if truthy (get p ''visible'') then get p ''visible''
           else JBool False)"
    by (simp add: get_migratePage js_or_def)
next
  assume a: "truthy c \<and> migrateCategory c = Inr r"
  then obtain cs where
    "r = JObj ([(''name'', js_or (get c ''name'') (JStr ''Unnamed Category'')),
         (''pages'', JArr (filter truthy
            (map migratePage (elems (js_or (get c ''pages'') (JArr [] []))))) []),
         (''categories'', JArr (filter truthy cs) [])]
        @ (if get c ''collapsed'' \<noteq> JUndef then [(''collapsed'', get c ''collapsed'')] else []))"
    by (blast elim: migrateCategory_InrE)
  then have "get r ''pages'' = JArr (filter truthy
            (map migratePage (elems (js_or (get c ''pages'') (JArr [] []))))) []"
    by simp
  then show "get r ''pages'' =
          JArr (map migratePage
                 (filter (\<lambda>p. truthy p \<and> truthy (get p ''url'')) (elems (get c ''pages'')))) []"
    by (simp only: elems_js_or_empty migrated_pages)
qed

lemma migrate_legacy_category: "migrateCategory legacy_category = Inr legacy_category_migrated"
  unfolding legacy_category_def legacy_category_migrated_def
  by code_simp

theorem migratePage_visibility_witness:
  "truthy (JObj [(''name'', JStr ''Valid''), (''url'', JStr ''https://...''),
                 (''visible'', JBool True)])
   \<and> get (migratePage (JObj [(''name'', JStr ''Valid''), (''url'', JStr ''https://...''),
                              (''visible'', JBool True)])) ''visibleToPlayers'' = JBool True
   \<and> truthy legacy_category
   \<and> migrateCategory legacy_category = Inr legacy_category_migrated
   \<and> get legacy_category_migrated ''pages'' =
        JArr [migratePage (JObj [(''name'', JStr ''Valid''), (''url'', JStr ''https://...''),
                                 (''visible'', JBool True)])] []"
  using migrate_legacy_category
    migratePage_visibility [of "JObj [(''name'', JStr ''Valid''), (''url'', JStr ''https://...''),
                 (''visible'', JBool True)]" legacy_category legacy_category_migrated]
  by (simp add: legacy_category_def)

text \<open>
  The claim as written fails where \<open>visibleToPlayers\<close> is present and \<open>false\<close> while
  \<open>visible\<close> is \<open>true\<close>: the migrated page is visible.
\<close>

theorem migratePage_visibility_counterexample:
  "get (JObj [(''name'', JStr ''P''), (''url'', JStr ''u''),
              (''visibleToPlayers'', JBool False), (''visible'', JBool True)])
     ''visibleToPlayers'' = JBool False
   \<and> get (migratePage (JObj [(''name'', JStr ''P''), (''url'', JStr ''u''),
              (''visibleToPlayers'', JBool False), (''visible'', JBool True)]))
     ''visibleToPlayers'' = JBool True"
  by code_simp

subsection \<open>validate on the result of migrate\<close>

lemma forEach_errors_empty:
  "(\<And>x i. x \<in> set xs \<Longrightarrow> f x i = []) \<Longrightarrow> forEach_errors f xs = []"
  by (auto simp: forEach_errors_def in_set_enumerate_eq)

lemma isString_js_or: "isString b \<Longrightarrow> (truthy a \<Longrightarrow> isString a) \<Longrightarrow> isString (js_or a b)"
  by (simp add: js_or_def)

lemma validatePage_migratePage:
  assumes ty: "page_fields_typed p" and t: "truthy (migratePage p)"
  shows "validatePage (migratePage p) path = []"
proof -
  from t have u: "truthy p" "truthy (get p ''url'')"
    by (simp_all add: truthy_migratePage)
  with ty have n: "truthy (get p ''name'') \<Longrightarrow> isString (get p ''name'')"
    and url: "isString (get p ''url'')"
    and bt: "truthy (get p ''blockTypes'') \<Longrightarrow> isArray (get p ''blockTypes'')"
    by (auto simp: page_fields_typed_def)
  have "truthy (js_or (get p ''name'') (JStr ''Unnamed Page''))"
    by (simp add: js_or_def)
  moreover have "isString (js_or (get p ''name'') (JStr ''Unnamed Page''))"
    using n by (simp add: isString_js_or)
  ultimately show ?thesis
    using t u url bt by (simp add: validatePage_def get_migratePage [OF t])
qed

lemma validateCategory_migrateCategory:
  "truthy c \<Longrightarrow> category_fields_typed c \<Longrightarrow> migrateCategory c = Inr r \<Longrightarrow>
   validateCategory r path = []"
proof (induction c arbitrary: r path rule: migrateCategory.induct)
  case (1 c)
  let ?P = "js_or (get c ''pages'') (JArr [] [])"
  let ?C = "js_or (get c ''categories'') (JArr [] [])"
  let ?n = "js_or (get c ''name'') (JStr ''Unnamed Category'')"
  let ?ps = "filter truthy (map migratePage (elems ?P))"
  from "1.prems"(3,1) obtain cs where
    arrP: "isArray ?P" and arrC: "isArray ?C" and
    cs: "mapM migrateCategory (elems ?C) = Inr cs" and
    r: "r = JObj ([(''name'', ?n), (''pages'', JArr ?ps []),
                   (''categories'', JArr (filter truthy cs) [])]
                  @ (if get c ''collapsed'' \<noteq> JUndef
                     then [(''collapsed'', get c ''collapsed'')] else []))"
    by (rule migrateCategory_InrE)
  note f = get_category_object [of ?n "JArr ?ps []" "JArr (filter truthy cs) []"
      "get c ''collapsed''", folded r]
  from "1.prems"(1,2) have
    tn: "truthy (get c ''name'') \<Longrightarrow> isString (get c ''name'')" and
    tp: "list_all page_fields_typed (elems (get c ''pages''))" and
    tc: "list_all category_fields_typed (elems (get c ''categories''))"
    by (simp_all add: category_fields_typed.simps [of c])
  have pagesP: "js_map (\<lambda>p. Inr (migratePage p)) ?P = Inr (map migratePage (elems ?P))"
    using arrP by (simp add: js_map_def mapM_pure)
  have name: "truthy ?n" "isString ?n"
    using tn by (simp_all add: js_or_def)
  have pages: "validatePage q pp = []" if "q \<in> set ?ps" for q pp
  proof -
    from that obtain p where "p \<in> set (elems (get c ''pages''))" "q = migratePage p" "truthy q"
      by (auto simp: elems_js_or_empty)
    with tp show ?thesis
      by (simp add: list_all_iff validatePage_migratePage)
  qed
  have cats: "validateCategory y pp = []" if "y \<in> set (filter truthy cs)" for y pp
  proof -
    from cs have "list_all2 (\<lambda>x y. migrateCategory x = Inr y) (elems ?C) cs"
      by (simp add: mapM_Inr_iff)
    with that obtain x where x: "x \<in> set (elems ?C)" "migrateCategory x = Inr y"
      by (auto dest: list_all2_rightD)
    with that have "truthy x" by (simp add: truthy_migrateCategory)
    moreover from x tc have "category_fields_typed x"
      by (simp add: list_all_iff elems_js_or_empty)
    ultimately show ?thesis
      using "1.IH" [of "map migratePage (elems ?P)" x y pp] "1.prems"(1) pagesP x by simp
  qed
  show ?case
    by (subst validateCategory.simps)
       (simp add: f name forEach_errors_empty pages cats del: set_filter)
qed

lemma validate_migrated_entries:
  assumes l: "list_all2 (\<lambda>c y. migrateCategory c = Inr y) xs cs"
    and ty: "list_all (\<lambda>category. truthy category \<and> category_fields_typed category) xs"
  shows "forEach_errors (\<lambda>cat index. validateCategory cat (indexed ''categories'' index)) cs = []"
proof (rule forEach_errors_empty)
  fix y i
  assume "y \<in> set cs"
  with l obtain x where "x \<in> set xs" "migrateCategory x = Inr y"
    by (blast dest: list_all2_rightD)
  with ty show "validateCategory y (indexed ''categories'' i) = []"
    by (auto simp: list_all_iff intro: validateCategory_migrateCategory)
qed

text \<open>
  Claim C1, as the code has it. \<open>migrate\<close> fills in what is missing and does not change
  what is there, so it normalizes only inputs whose fields, where they are there, have
  the right types. For every JSON input on which \<open>migrate\<close> returns, whose top-level
  \<open>categories\<close> has no \<open>null\<close> (or otherwise falsy) entry, and in which every truthy
  category name, page name and page \<open>url\<close> is a string and every truthy \<open>blockTypes\<close>
  an array, the result passes \<open>validate\<close>. Categories and pages without a name are
  among these inputs: they get the placeholder names.
\<close>

theorem migrate_result_validates:
  assumes "is_json x" and "config_fields_typed x" and "migrate x = Inr r"
  shows "valid (validate r)"
proof (cases "truthy x")
  case False
  with assms(3) have "r = JObj [(''categories'', JArr [] [])]"
    by (simp add: migrate_def)
  then show ?thesis
    by (simp add: validate_def forEach_errors_def)
next
  case True
  with assms(3) consider kvs where "x = JObj kvs" | xs ps where "x = JArr xs ps"
    using migrate_primitive by blast
  then show ?thesis
  proof cases
    case 1
    from assms(1) 1 have jk: "is_json (JObj kvs)" by simp
    from assms(3) 1 have mk: "migrate (JObj kvs) = Inr r" by simp
    from jk mk obtain cs where r: "r = JObj (AList.update ''categories'' (JArr cs []) kvs)"
      and cs: "list_all2 (\<lambda>c y. migrateCategory c = Inr y)
                 (elems (get (JObj kvs) ''categories'')) cs"
      by (rule migrate_object) blast
    from assms(2) 1 have
      "list_all (\<lambda>category. truthy category \<and> category_fields_typed category)
         (elems (get (JObj kvs) ''categories''))"
      by (simp add: config_fields_typed_def)
    with cs have
      "forEach_errors (\<lambda>cat index. validateCategory cat (indexed ''categories'' index)) cs = []"
      by (rule validate_migrated_entries)
    then show ?thesis
      by (simp add: r validate_def get_update del: get.simps)
  next
    case 2
    with assms(1,3) migrate_array(1) [of xs ps]
    have "r = JArr xs [(''categories'', JArr [] [])]" by simp
    then show ?thesis
      by (simp add: validate_def forEach_errors_def)
  qed
qed

theorem migrate_result_validates_witness:
  "is_json legacy_config \<and> config_fields_typed legacy_config
   \<and> migrate legacy_config = Inr legacy_config_migrated
   \<and> valid (validate legacy_config_migrated)"
proof -
  have j: "is_json legacy_config"
    unfolding legacy_config_def by simp
  have t: "config_fields_typed legacy_config"
    unfolding legacy_config_def
    by (simp add: config_fields_typed_def category_fields_typed.simps page_fields_typed_def)
  show ?thesis
    using j t migrate_legacy_config migrate_result_validates [OF j t migrate_legacy_config]
    by simp
qed

text \<open>
  The claim as written fails on a \<open>null\<close> entry of the top-level \<open>categories\<close>, which
  \<open>migrate\<close> keeps (below the top level \<open>.filter(c => c)\<close> removes it), and on a name, a
  \<open>url\<close> or a \<open>blockTypes\<close> of the wrong type, which \<open>migrate\<close> keeps too.
\<close>

theorem migrate_result_validates_counterexample:
  "migrate (JObj [(''categories'', JArr
      [JNull,
       JObj [(''name'', JNum 5),
             (''pages'', JArr
                [JObj [(''name'', JNum 7), (''url'', JNum 8), (''blockTypes'', JStr ''x'')]] [])]] [])])
     = Inr (JObj [(''categories'', JArr
          [JNull,
           JObj [(''name'', JNum 5),
                 (''pages'', JArr
                    [JObj [(''name'', JNum 7), (''url'', JNum 8),
                           (''visibleToPlayers'', JBool False),
                           (''blockTypes'', JStr ''x'')]] []),
                 (''categories'', JArr [] [])]] [])])
   \<and> validate (JObj [(''categories'', JArr
          [JNull,
           JObj [(''name'', JNum 5),
                 (''pages'', JArr
                    [JObj [(''name'', JNum 7), (''url'', JNum 8),
                           (''visibleToPlayers'', JBool False),
                           (''blockTypes'', JStr ''x'')]] []),
                 (''categories'', JArr [] [])]] [])])
     = \<lparr>valid = False,
        errors = [''categories[0]'' @ msg_category_empty,
                  ''categories[1]: falta nombre o no es string'',
                  ''categories[1].pages[0]: falta nombre o no es string'',
                  ''categories[1].pages[0]: falta URL o no es string'',
                  ''categories[1].pages[0].blockTypes: debe ser un array'']\<rparr>"
  by code_simp

section \<open>Properties of parse\<close>

text \<open>The two walks, with the guards folded into \<open>elems\<close>, which is empty off arrays.\<close>

lemma elems_not_array: "\<not> isArray v \<Longrightarrow> elems v = []"
  by (cases v) simp_all

lemma parseCategories_eq:
  "parseCategories new v =
     mapM (parseCategory new) (filter (\<lambda>cat. truthy cat \<and> truthy (get cat ''name'')) (elems v))"
  by (subst parseCategories.simps) (simp add: elems_not_array)

lemma parsePages_eq:
  "parsePages v =
     map parsePage
       (filter (\<lambda>page. truthy page \<and> truthy (get page ''name'') \<and> truthy (get page ''url''))
          (elems v))"
  by (simp add: parsePages_def elems_not_array)

lemma parseCategory_eq:
  "parseCategory new c =
     (case mapM (parseCategory new)
             (filter (\<lambda>cat. truthy cat \<and> truthy (get cat ''name''))
                (elems (get c ''categories''))) of
        Inl e \<Rightarrow> Inl e
      | Inr subcategories \<Rightarrow>
          new (get c ''name'')
            (map parsePage
               (filter (\<lambda>page. truthy page \<and> truthy (get page ''name'') \<and> truthy (get page ''url''))
                  (elems (get c ''pages''))))
            subcategories
            (js_or (get c ''collapsed'') (JBool False)))"
  by (subst parseCategory.simps)
     (simp add: parseCategories_eq parsePages_eq elems_js_or_empty Let_def)

lemma mapM_total:
  "(\<And>x. x \<in> set xs \<Longrightarrow> \<exists>y. f x = Inr y \<and> R x y) \<Longrightarrow>
   \<exists>ys. mapM f xs = Inr ys \<and> list_all2 R xs ys"
proof (induction xs)
  case Nil
  show ?case by simp
next
  case (Cons x xs)
  then obtain y ys where "f x = Inr y" "R x y" "mapM f xs = Inr ys" "list_all2 R xs ys"
    by (metis list.set_intros(1,2))
  then show ?case by simp
qed



text \<open>An exception raised at a category the descent constructs comes out of the descent.\<close>

lemma mapM_Inl: "x \<in> set xs \<Longrightarrow> f x = Inl e \<Longrightarrow> \<exists>e'. mapM f xs = Inl e'"
  by (induction xs) (auto split: sum.splits)

lemma parseCategory_propagates:
  assumes "c \<in> set (elems (get p ''categories''))" and "truthy c" and "truthy (get c ''name'')"
    and "parseCategory new c = Inl e"
  shows "\<exists>e'. parseCategory new p = Inl e'"
proof -
  from assms have
    "\<exists>e'. mapM (parseCategory new)
             (filter (\<lambda>cat. truthy cat \<and> truthy (get cat ''name'')) (elems (get p ''categories'')))
           = Inl e'"
    by (intro mapM_Inl [of c]) simp_all
  then show ?thesis
    by (subst parseCategory_eq) auto
qed

lemma kept_category_propagates:
  "kept_category json c \<Longrightarrow> parseCategory new c = Inl e \<Longrightarrow>
   \<exists>e'. parseCategories new (js_or (get json ''categories'') (JArr [] [])) = Inl e'"
proof (induction arbitrary: e rule: kept_category.induct)
  case (top_kept c)
  then show ?case
    unfolding parseCategories_eq elems_js_or_empty
    by (intro mapM_Inl [of c]) simp_all
next
  case (sub_kept p c)
  from sub_kept.hyps(2-4) sub_kept.prems obtain e' where "parseCategory new p = Inl e'"
    using parseCategory_propagates by blast
  then show ?case by (rule sub_kept.IH)
qed

lemma kept_category_truthy: "kept_category json c \<Longrightarrow> truthy json"
  by (induction rule: kept_category.induct) simp_all

text \<open>
  Claim C4. \<open>parse\<close> never signals an error: its result is a Config, whatever the input
  and whatever the Category constructor does. \<open>parse(null)\<close> and \<open>parse(undefined)\<close>
  are the empty Config; when the recursive descent throws, \<open>parse\<close> catches the
  exception and returns the empty Config, and the descent throws whenever the
  construction of a category it reaches, at any depth, does; when the descent
  returns, its categories are the Config's.
\<close>

theorem parse_never_fails:
  "parse new JNull = Config []
   \<and> parse new JUndef = Config []
   \<and> (truthy json \<and> parseCategories new (js_or (get json ''categories'') (JArr [] [])) = Inl e
        \<longrightarrow> parse new json = Config [])
   \<and> (kept_category json c \<and> parseCategory new c = Inl e \<longrightarrow> parse new json = Config [])
   \<and> (truthy json \<and> parseCategories new (js_or (get json ''categories'') (JArr [] [])) = Inr cs
        \<longrightarrow> parse new json = Config cs)"
proof (intro conjI impI)
  assume "kept_category json c \<and> parseCategory new c = Inl e"
  then obtain e' where
    "parseCategories new (js_or (get json ''categories'') (JArr [] [])) = Inl e'"
    using kept_category_propagates by blast
  then show "parse new json = Config []"
    by (simp add: parse_def new_Config_def)
qed (simp_all add: parse_def new_Config_def)

lemma nested_config_throws:
  "parseCategory strict_Category (JObj [(''name'', JStr ''NPCs''), (''pages'', JStr ''none'')])
     = Inl TypeError"
  by code_simp

lemma nested_config_descent_throws:
  "parseCategories strict_Category (js_or (get nested_config ''categories'') (JArr [] []))
     = Inl TypeError"
  unfolding nested_config_def by code_simp

lemma nested_config_kept:
  "kept_category nested_config (JObj [(''name'', JStr ''NPCs''), (''pages'', JStr ''none'')])"
proof -
  have "kept_category nested_config
     (JObj [(''name'', JStr ''Characters''),
            (''pages'', JArr [JObj [(''name'', JStr ''Map''), (''url'', JStr ''https://...'')]] []),
            (''categories'', JArr
               [JObj [(''name'', JStr ''NPCs''), (''pages'', JStr ''none'')]] [])])"
    by (rule top_kept) (simp_all add: nested_config_def)
  then show ?thesis
    by (rule sub_kept) simp_all
qed

lemma nested_config_parsed:
  "parseCategories new_Category (js_or (get nested_config ''categories'') (JArr [] []))
     = Inr [Category (JStr ''Characters'')
              [Page (JStr ''Map'') (JStr ''https://...'') (JBool False) JNull JNull JNull]
              [Category (JStr ''NPCs'') [] [] (JBool False)]
              (JBool False)]"
  unfolding nested_config_def by code_simp

theorem parse_never_fails_witness:
  "truthy nested_config
   \<and> parseCategories strict_Category (js_or (get nested_config ''categories'') (JArr [] []))
       = Inl TypeError
   \<and> kept_category nested_config (JObj [(''name'', JStr ''NPCs''), (''pages'', JStr ''none'')])
   \<and> parseCategory strict_Category (JObj [(''name'', JStr ''NPCs''), (''pages'', JStr ''none'')])
       = Inl TypeError
   \<and> parse strict_Category nested_config = Config []
   \<and> parse new_Category nested_config =
       Config [Category (JStr ''Characters'')
                 [Page (JStr ''Map'') (JStr ''https://...'') (JBool False) JNull JNull JNull]
                 [Category (JStr ''NPCs'') [] [] (JBool False)]
                 (JBool False)]"
proof -
  have t: "truthy nested_config" by (simp add: nested_config_def)
  show ?thesis
    using t nested_config_throws nested_config_descent_throws nested_config_kept
      nested_config_parsed
      parse_never_fails [of strict_Category nested_config TypeError
        "JObj [(''name'', JStr ''NPCs''), (''pages'', JStr ''none'')]"]
      parse_never_fails [of new_Category nested_config _ _
        "[Category (JStr ''Characters'')
                 [Page (JStr ''Map'') (JStr ''https://...'') (JBool False) JNull JNull JNull]
                 [Category (JStr ''NPCs'') [] [] (JBool False)]
                 (JBool False)]"]
    by simp
qed

subsection \<open>What parse keeps and what it drops\<close>

lemma nonempty_string_truthy: "nonempty_string v \<Longrightarrow> truthy v"
  by (cases v) (simp_all add: nonempty_string_def)

lemma truthy_string_or_absent: "string_or_absent v \<Longrightarrow> truthy v = nonempty_string v"
  by (cases v) (simp_all add: string_or_absent_def nonempty_string_def)

text \<open>On JSON that matches the schema the tests of the code are the tests of the specification.\<close>

lemma kept_category_iff:
  assumes "category_matches_schema c"
  shows "(truthy c \<and> truthy (get c ''name'')) = (\<not> category_dropped c)"
proof (cases "c = JNull")
  case True
  then show ?thesis by (simp add: category_dropped_def)
next
  case False
  with assms have s: "string_or_absent (get c ''name'')"
    by (simp add: category_matches_schema.simps [of c])
  have "truthy (get c ''name'') \<Longrightarrow> truthy c"
    by (rule get_defined_truthy [of c "''name''"]) auto
  with False s show ?thesis
    by (auto simp: category_dropped_def truthy_string_or_absent)
qed

lemma kept_page_iff:
  assumes "page_matches_schema p"
  shows "(truthy p \<and> truthy (get p ''name'') \<and> truthy (get p ''url'')) = (\<not> page_dropped p)"
proof (cases "p = JNull")
  case True
  then show ?thesis by (simp add: page_dropped_def)
next
  case False
  with assms have s: "string_or_absent (get p ''name'')" "string_or_absent (get p ''url'')"
    by (simp_all add: page_matches_schema_def)
  have "truthy (get p ''name'') \<Longrightarrow> truthy p"
    by (rule get_defined_truthy [of p "''name''"]) auto
  with False s show ?thesis
    by (auto simp: page_dropped_def truthy_string_or_absent)
qed

lemma kept_categories:
  "list_all category_matches_schema cs \<Longrightarrow>
   filter (\<lambda>cat. truthy cat \<and> truthy (get cat ''name'')) cs = filter (\<lambda>s. \<not> category_dropped s) cs"
  by (rule filter_cong) (simp_all add: list_all_iff kept_category_iff)

lemma kept_pages:
  "list_all page_matches_schema ps \<Longrightarrow>
   filter (\<lambda>page. truthy page \<and> truthy (get page ''name'') \<and> truthy (get page ''url'')) ps
   = filter (\<lambda>p. \<not> page_dropped p) ps"
  by (rule filter_cong) (simp_all add: list_all_iff kept_page_iff)

lemma page_parsed_from_parsePage: "page_parsed_from p (parsePage p)"
  by (simp add: page_parsed_from_def parsePage_def new_Page_def)

lemma pages_parsed_from: "list_all2 page_parsed_from ps (map parsePage ps)"
  by (simp add: list_all2_map2 list.rel_refl page_parsed_from_parsePage)

lemma parseCategory_parsed_from:
  "category_matches_schema c \<Longrightarrow>
   \<exists>pc. parseCategory new_Category c = Inr pc \<and> category_parsed_from c pc"
proof (induction c rule: subcategories_induct)
  case (category c)
  show ?case
  proof (cases "c = JNull")
    case True
    then show ?thesis
      by (subst parseCategory_eq)
         (simp add: new_Category_def category_parsed_from.simps [of JNull] parsePage_def)
  next
    case False
    let ?subs = "elems (get c ''categories'')"
    let ?pages = "elems (get c ''pages'')"
    from False category.prems have
      sp: "list_all page_matches_schema ?pages" and
      sc: "list_all category_matches_schema ?subs"
      by (simp_all add: category_matches_schema.simps [of c])
    have "\<exists>ys. mapM (parseCategory new_Category) (filter (\<lambda>s. \<not> category_dropped s) ?subs) = Inr ys
            \<and> list_all2 category_parsed_from (filter (\<lambda>s. \<not> category_dropped s) ?subs) ys"
      by (rule mapM_total) (use sc category.IH in \<open>auto simp: list_all_iff\<close>)
    then obtain ys where
      ys: "mapM (parseCategory new_Category) (filter (\<lambda>s. \<not> category_dropped s) ?subs) = Inr ys"
        "list_all2 category_parsed_from (filter (\<lambda>s. \<not> category_dropped s) ?subs) ys"
      by blast
    have "parseCategory new_Category c =
        Inr (Category (get c ''name'') (map parsePage (filter (\<lambda>p. \<not> page_dropped p) ?pages)) ys
               (js_or (get c ''collapsed'') (JBool False)))"
      by (subst parseCategory_eq)
         (simp add: kept_categories [OF sc] kept_pages [OF sp] ys new_Category_def)
    moreover have "category_parsed_from c
        (Category (get c ''name'') (map parsePage (filter (\<lambda>p. \<not> page_dropped p) ?pages)) ys
               (js_or (get c ''collapsed'') (JBool False)))"
      by (subst category_parsed_from.simps) (simp add: ys pages_parsed_from)
    ultimately show ?thesis by blast
  qed
qed

text \<open>
  Claim C7. For JSON that matches the schema, the categories of \<open>parse(json)\<close> stand,
  one for one and in order, for the entries of \<open>json.categories\<close> that are not dropped,
  and so on downwards for the pages and the child categories of each; their number is
  the number of entries less the dropped ones, and equals it when no entry is
  dropped. Dropped are the categories that are null or lack a non-empty name, and the
  pages that are null or lack a non-empty name or url.
\<close>

theorem parse_shrinks_by_dropped:
  assumes "config_matches_schema json"
  shows "list_all2 category_parsed_from
           (filter (\<lambda>c. \<not> category_dropped c) (elems (get json ''categories'')))
           (config_categories (parse new_Category json))
         \<and> length (config_categories (parse new_Category json))
             = length (elems (get json ''categories''))
               - length (filter category_dropped (elems (get json ''categories'')))
         \<and> (list_all (\<lambda>c. \<not> category_dropped c) (elems (get json ''categories'')) \<longrightarrow>
              length (config_categories (parse new_Category json))
              = length (elems (get json ''categories'')))"
proof -
  let ?cs = "elems (get json ''categories'')"
  let ?kept = "filter (\<lambda>c. \<not> category_dropped c) ?cs"
  from assms have sc: "list_all category_matches_schema ?cs"
    and "get json ''categories'' \<noteq> JUndef"
    by (auto simp: config_matches_schema_def)
  then have t: "truthy json"
    by (intro get_defined_truthy)
  have "\<exists>ys. mapM (parseCategory new_Category) ?kept = Inr ys
            \<and> list_all2 category_parsed_from ?kept ys"
    by (rule mapM_total) (use sc parseCategory_parsed_from in \<open>auto simp: list_all_iff\<close>)
  then obtain ys where
    ys: "mapM (parseCategory new_Category) ?kept = Inr ys" "list_all2 category_parsed_from ?kept ys"
    by blast
  have p: "parse new_Category json = Config ys"
    using t
    by (simp add: parse_def parseCategories_eq elems_js_or_empty kept_categories [OF sc] ys)
  from ys(2) have len: "length ys = length ?kept"
    by (simp add: list_all2_lengthD)
  have "length ?kept + length (filter category_dropped ?cs) = length ?cs"
    by (rule sum_length_filter_compl [of "\<lambda>c. \<not> category_dropped c" ?cs, simplified])
  moreover have "list_all (\<lambda>c. \<not> category_dropped c) ?cs \<Longrightarrow> ?kept = ?cs"
    by (simp add: list_all_iff)
  ultimately show ?thesis
    using ys(2) len by (auto simp: p)
qed

lemma sparse_config_schema: "config_matches_schema sparse_config"
  by (simp add: sparse_config_def config_matches_schema_def category_matches_schema.simps
      page_matches_schema_def string_or_absent_def)

lemma legacy_config_schema: "config_matches_schema legacy_config"
  by (simp add: legacy_config_def config_matches_schema_def category_matches_schema.simps
      page_matches_schema_def string_or_absent_def)

lemma legacy_config_none_dropped:
  "list_all (\<lambda>c. \<not> category_dropped c) (elems (get legacy_config ''categories''))
   \<and> length (elems (get legacy_config ''categories'')) = 1"
  by (simp add: legacy_config_def category_dropped_def nonempty_string_def)

theorem parse_shrinks_by_dropped_witness:
  "config_matches_schema sparse_config
   \<and> length (elems (get sparse_config ''categories'')) = 4
   \<and> length (filter category_dropped (elems (get sparse_config ''categories''))) = 3
   \<and> length (config_categories (parse new_Category sparse_config)) = 1
   \<and> list_all2 category_parsed_from
        [JObj [(''name'', JStr ''NPCs''),
              (''pages'', JArr
                 [JObj [(''name'', JStr ''Gandalf''), (''url'', JStr ''https://notion.so/gandalf'')],
                  JObj [(''name'', JStr ''NoUrl'')],
                  JNull] [])]]
        (config_categories (parse new_Category sparse_config))
   \<and> config_matches_schema legacy_config
   \<and> list_all (\<lambda>c. \<not> category_dropped c) (elems (get legacy_config ''categories''))
   \<and> length (config_categories (parse new_Category legacy_config)) = 1"
proof -
  have d: "filter category_dropped (elems (get sparse_config ''categories''))
      = [JNull, JObj [(''pages'', JArr [] [])], JObj [(''name'', JStr [])]]"
    by (simp add: sparse_config_def category_dropped_def nonempty_string_def)
  have k: "filter (\<lambda>c. \<not> category_dropped c) (elems (get sparse_config ''categories''))
      = [JObj [(''name'', JStr ''NPCs''),
              (''pages'', JArr
                 [JObj [(''name'', JStr ''Gandalf''), (''url'', JStr ''https://notion.so/gandalf'')],
                  JObj [(''name'', JStr ''NoUrl'')],
                  JNull] [])]]"
    by (simp add: sparse_config_def category_dropped_def nonempty_string_def)
  have l: "length (elems (get sparse_config ''categories'')) = 4"
    by (simp add: sparse_config_def)
  have sparse: "length (config_categories (parse new_Category sparse_config)) = 1
     \<and> list_all2 category_parsed_from
        [JObj [(''name'', JStr ''NPCs''),
              (''pages'', JArr
                 [JObj [(''name'', JStr ''Gandalf''), (''url'', JStr ''https://notion.so/gandalf'')],
                  JObj [(''name'', JStr ''NoUrl'')],
                  JNull] [])]]
        (config_categories (parse new_Category sparse_config))"
    using parse_shrinks_by_dropped [OF sparse_config_schema]
    by (simp add: d k l)
  have legacy: "length (config_categories (parse new_Category legacy_config)) = 1"
    using parse_shrinks_by_dropped [OF legacy_config_schema] legacy_config_none_dropped
    by simp
  show ?thesis
    using sparse legacy sparse_config_schema legacy_config_schema legacy_config_none_dropped
    by (simp add: d l)
qed

subsection \<open>Malformed fields\<close>










section \<open>Properties of the CacheService\<close>

lemma update_fresh: "k \<notin> fst ` set al \<Longrightarrow> AList.update k v al = al @ [(k, v)]"
  by (induction al) auto

lemma length_update: "length (AList.update k v al) \<le> Suc (length al)"
  by (induction al) auto

lemma save_bounded:
  "length (localHtmlCache s) \<le> html_cache_capacity \<Longrightarrow>
   length (localHtmlCache (saveHtmlToLocalCache s pageId html)) \<le> html_cache_capacity"
  using length_update [of pageId html "localHtmlCache s"]
  by (auto simp: saveHtmlToLocalCache_def Let_def)

lemma save_all_snoc:
  "save_all (saves @ [(pageId, html)]) s = saveHtmlToLocalCache (save_all saves s) pageId html"
  by (simp add: save_all_def)

lemma save_all_bounded:
  "length (localHtmlCache s) \<le> html_cache_capacity \<Longrightarrow>
   length (localHtmlCache (save_all saves s)) \<le> html_cache_capacity"
proof (induction saves rule: rev_induct)
  case Nil
  then show ?case by (simp add: save_all_def)
next
  case (snoc x xs)
  then show ?case
    by (cases x) (simp add: save_all_snoc save_bounded)
qed

lemma save_evicts_oldest:
  assumes "length (localHtmlCache s) = html_cache_capacity"
    and "pageId \<notin> fst ` set (localHtmlCache s)"
  shows "localHtmlCache (saveHtmlToLocalCache s pageId html)
         = tl (localHtmlCache s) @ [(pageId, html)]"
proof -
  from assms(1) have "localHtmlCache s \<noteq> []"
    by (auto simp: html_cache_capacity_def)
  with assms show ?thesis
    by (simp add: saveHtmlToLocalCache_def Let_def update_fresh)
qed

text \<open>Distinct keys saved into the empty tier: the tier holds the last 20 saves, in order.\<close>

lemma save_all_distinct:
  "distinct (map fst saves) \<Longrightarrow>
   localHtmlCache (save_all saves new_CacheService)
   = drop (length saves - html_cache_capacity) saves"
proof (induction saves rule: rev_induct)
  case Nil
  show ?case by (simp add: save_all_def new_CacheService_def)
next
  case (snoc x xs)
  obtain k h where x: "x = (k, h)" by (cases x)
  let ?c = "localHtmlCache (save_all xs new_CacheService)"
  from snoc have c: "?c = drop (length xs - html_cache_capacity) xs"
    by simp
  from snoc.prems x have "k \<notin> fst ` set xs" by auto
  then have fresh: "k \<notin> fst ` set ?c"
    unfolding c using set_drop_subset [of "length xs - html_cache_capacity" xs] by blast
  show ?case
  proof (cases "length xs < html_cache_capacity")
    case True
    then show ?thesis
      using fresh c
      by (simp add: x save_all_snoc saveHtmlToLocalCache_def Let_def update_fresh)
  next
    case False
    then have len: "length ?c = html_cache_capacity"
      by (simp add: c)
    have "tl ?c = drop (Suc (length xs) - html_cache_capacity) xs"
      using False by (simp add: c tl_drop Suc_diff_le drop_Suc)
    moreover have "Suc 0 - html_cache_capacity = 0"
      by (simp add: html_cache_capacity_def)
    ultimately show ?thesis
      using False save_evicts_oldest [OF len fresh, of h]
      by (simp add: x save_all_snoc Suc_diff_le)
  qed
qed

text \<open>
  Claim C8. The rendered-HTML tier holds at most 20 entries at all times: a save keeps
  the bound, and so does any sequence of saves from the start. Eviction is first in,
  first out: a save of a new key into a full tier removes exactly the oldest entry and
  puts the new one last, and after saves of distinct keys the tier holds the last 20 of
  them in the order saved; after 21 of them the first is gone and the other 20 are
  there. A read is a function of the state and does not change it.
\<close>

theorem html_cache_bounded_fifo:
  "length (localHtmlCache (save_all saves new_CacheService)) \<le> 20
   \<and> (length (localHtmlCache s) \<le> 20 \<longrightarrow>
        length (localHtmlCache (saveHtmlToLocalCache s pageId html)) \<le> 20)
   \<and> (length (localHtmlCache s) = 20 \<and> pageId \<notin> fst ` set (localHtmlCache s) \<longrightarrow>
        localHtmlCache (saveHtmlToLocalCache s pageId html)
        = tl (localHtmlCache s) @ [(pageId, html)])
   \<and> (distinct (map fst saves) \<longrightarrow>
        localHtmlCache (save_all saves new_CacheService) = drop (length saves - 20) saves)
   \<and> (distinct (map fst saves) \<and> length saves = 21 \<longrightarrow>
        length (localHtmlCache (save_all saves new_CacheService)) = 20 \<and>
        getHtmlFromLocalCache (save_all saves new_CacheService) (fst (hd saves)) = None \<and>
        map fst (localHtmlCache (save_all saves new_CacheService)) = tl (map fst saves))"
proof (intro conjI impI)
  show "length (localHtmlCache (save_all saves new_CacheService)) \<le> 20"
    using save_all_bounded [of new_CacheService saves]
    by (simp add: new_CacheService_def html_cache_capacity_def)
next
  assume "length (localHtmlCache s) \<le> 20"
  then show "length (localHtmlCache (saveHtmlToLocalCache s pageId html)) \<le> 20"
    using save_bounded [of s pageId html] by (simp add: html_cache_capacity_def)
next
  assume "length (localHtmlCache s) = 20 \<and> pageId \<notin> fst ` set (localHtmlCache s)"
  then show "localHtmlCache (saveHtmlToLocalCache s pageId html)
        = tl (localHtmlCache s) @ [(pageId, html)]"
    using save_evicts_oldest [of s pageId html] by (simp add: html_cache_capacity_def)
next
  assume "distinct (map fst saves)"
  then show "localHtmlCache (save_all saves new_CacheService) = drop (length saves - 20) saves"
    using save_all_distinct [of saves] by (simp add: html_cache_capacity_def)
next
  assume a: "distinct (map fst saves) \<and> length saves = 21"
  then have c: "localHtmlCache (save_all saves new_CacheService) = tl saves"
    using save_all_distinct [of saves] by (simp add: html_cache_capacity_def drop_Suc)
  from a obtain x xs where s: "saves = x # xs" by (cases saves) auto
  with a have "fst x \<notin> fst ` set xs" by auto
  then have "map_of xs (fst x) = None"
    by (simp add: map_of_eq_None_iff)
  moreover from c s have "localHtmlCache (save_all (x # xs) new_CacheService) = xs"
    by simp
  ultimately have "length (localHtmlCache (save_all saves new_CacheService)) = 20 \<and>
        getHtmlFromLocalCache (save_all saves new_CacheService) (fst (hd saves)) = None \<and>
        map fst (localHtmlCache (save_all saves new_CacheService)) = tl (map fst saves)"
    using a by (simp add: s getHtmlFromLocalCache_def)
  then show "length (localHtmlCache (save_all saves new_CacheService)) = 20"
    and "getHtmlFromLocalCache (save_all saves new_CacheService) (fst (hd saves)) = None"
    and "map fst (localHtmlCache (save_all saves new_CacheService)) = tl (map fst saves)"
    by simp_all
qed

lemma test_saves_distinct: "distinct (map fst test_saves) \<and> length test_saves = 21"
  unfolding test_saves_def by code_simp

lemma test_saves_first: "fst (hd test_saves) = ''page-0''"
  unfolding test_saves_def by code_simp

lemma test_saves_tier:
  "localHtmlCache (save_all (take 20 test_saves) new_CacheService) = take 20 test_saves"
  unfolding test_saves_def save_all_def saveHtmlToLocalCache_def new_CacheService_def
    html_cache_capacity_def
  by code_simp

lemma test_saves_last:
  "length (take 20 test_saves) = 20 \<and> ''page-20'' \<notin> fst ` set (take 20 test_saves)"
  unfolding test_saves_def by code_simp

theorem html_cache_bounded_fifo_witness:
  "distinct (map fst test_saves) \<and> length test_saves = 21
   \<and> length (localHtmlCache (save_all test_saves new_CacheService)) = 20
   \<and> getHtmlFromLocalCache (save_all test_saves new_CacheService) ''page-0'' = None
   \<and> localHtmlCache (save_all test_saves new_CacheService) = tl test_saves
   \<and> localHtmlCache
        (saveHtmlToLocalCache (save_all (take 20 test_saves) new_CacheService)
           ''page-20'' ''<div>20</div>'')
      = tl (take 20 test_saves) @ [(''page-20'', ''<div>20</div>'')]"
  using test_saves_distinct test_saves_first test_saves_tier test_saves_last
    html_cache_bounded_fifo [of test_saves "save_all (take 20 test_saves) new_CacheService"
      "''page-20''" "''<div>20</div>''"]
  by (simp add: drop_Suc)

text \<open>
  Claim C9. \<open>clearLocalCache\<close> empties the rendered-HTML tier and nothing else: after
  it every read of the HTML tier is \<open>null\<close>, and every read of the blocks tier and of
  the page-info tier returns what it returned before.
\<close>

theorem clearLocalCache_only_html:
  "getHtmlFromLocalCache (clearLocalCache s) pageId = None
   \<and> localHtmlCache (clearLocalCache s) = []
   \<and> getCachedBlocks (clearLocalCache s) pageId = getCachedBlocks s pageId
   \<and> getCachedPageInfo (clearLocalCache s) pageId = getCachedPageInfo s pageId
   \<and> blocksCache (clearLocalCache s) = blocksCache s
   \<and> pageInfoCache (clearLocalCache s) = pageInfoCache s"
  by (simp add: clearLocalCache_def getHtmlFromLocalCache_def getCachedBlocks_def
      getCachedPageInfo_def)

end
